theory Spec2Isabelle
  imports Complex_Main
begin

section \<open>Data model\<close>

text \<open>
  The molecule editor keeps atoms and bonds in two arrays. Identifiers and element
  symbols are JavaScript strings; coordinates and angles are JavaScript numbers, read
  here as real numbers (rounding, NaN and signed zero are outside this development);
  bond orders and hydrogen counts are integers.
\<close>

record Point =
  pos_x :: real
  pos_y :: real

record Atom =
  atom_id :: string
  element :: string
  position :: Point

datatype BondType = Single | Double | Triple | Wedge | Dash

record Bond =
  bond_id :: string
  sourceAtomId :: string
  targetAtomId :: string
  bond_type :: BondType

record Molecule =
  atoms :: "Atom list"
  bonds :: "Bond list"

section \<open>The valence definitions the engine imports\<close>

text \<open>
  Modelled from the spec: the module \<^verbatim>\<open>valenceDefinitions\<close> is imported by the engine
  but is not among the sources. The glossary fixes the table \<^verbatim>\<open>BOND_ORDER\<close>
  completely: single = 1, double = 2, triple = 3, wedge = dash = 1.
\<close>

fun BOND_ORDER :: "BondType \<Rightarrow> int" where
  "BOND_ORDER Single = 1"
| "BOND_ORDER Double = 2"
| "BOND_ORDER Triple = 3"
| "BOND_ORDER Wedge = 1"
| "BOND_ORDER Dash = 1"

text \<open>
  The two queries of the valence table are parameters of every function that calls
  them. \<open>getBestValenceForBondCount\<close> answers \<open>None\<close> when it has no number to give.
\<close>

record ValenceTable =
  getBestValenceForBondCount :: "string \<Rightarrow> int \<Rightarrow> int option"
  canAcceptMoreBonds :: "string \<Rightarrow> int \<Rightarrow> int \<Rightarrow> bool"

text \<open>JavaScript's \<^verbatim>\<open>!targetValence\<close>: an absent value and the number 0 are both falsy.\<close>

definition falsy :: "int option \<Rightarrow> bool" where
  "falsy v = (case v of None \<Rightarrow> True | Some n \<Rightarrow> n = 0)"

section \<open>Bond accounting\<close>

definition touches :: "string \<Rightarrow> Bond \<Rightarrow> bool" where
  "touches atomId b = (sourceAtomId b = atomId \<or> targetAtomId b = atomId)"

definition getAtomBondCount :: "string \<Rightarrow> Bond list \<Rightarrow> int" where
  "getAtomBondCount atomId bs =
     foldl (\<lambda>count b.
        if sourceAtomId b = atomId \<or> targetAtomId b = atomId
        then count + BOND_ORDER (bond_type b)
        else count) 0 bs"


section \<open>Required hydrogens and the hydrogen set resolver\<close>

definition getRequiredHydrogens :: "ValenceTable \<Rightarrow> Atom \<Rightarrow> Bond list \<Rightarrow> int" where
  "getRequiredHydrogens vt atom bs =
     (let currentBonds = getAtomBondCount (atom_id atom) bs;
          targetValence = getBestValenceForBondCount vt (element atom) currentBonds
      in if falsy targetValence then 0
         else (case targetValence of None \<Rightarrow> 0 | Some tv \<Rightarrow> max 0 (tv - currentBonds)))"

text \<open>
  The atom at the other end of a bond, as \<^verbatim>\<open>getConnectedHydrogens\<close> finds it: the target
  when the source is the atom asked about, else the source when the target is, else null.
\<close>

definition connectedAtomId :: "string \<Rightarrow> Bond \<Rightarrow> string option" where
  "connectedAtomId atomId b =
     (if sourceAtomId b = atomId then Some (targetAtomId b)
      else if targetAtomId b = atomId then Some (sourceAtomId b)
      else None)"

text \<open>
  One round of the \<^verbatim>\<open>forEach\<close> over the bonds. The test \<^verbatim>\<open>if (connectedAtomId)\<close> is
  false for null and for the empty string. The set of ids is kept as a list without
  repetitions, in insertion order.
\<close>

definition hydrogenIdsStep :: "string \<Rightarrow> Atom list \<Rightarrow> string list \<Rightarrow> Bond \<Rightarrow> string list" where
  "hydrogenIdsStep atomId ats hydrogenIds b =
     (case connectedAtomId atomId b of
        None \<Rightarrow> hydrogenIds
      | Some c \<Rightarrow>
          if c = [] then hydrogenIds
          else (case find (\<lambda>a. atom_id a = c) ats of
                  None \<Rightarrow> hydrogenIds
                | Some connectedAtom \<Rightarrow>
                    if element connectedAtom = ''H''
                    then (if c \<in> set hydrogenIds then hydrogenIds else hydrogenIds @ [c])
                    else hydrogenIds))"

definition hydrogenIdsOf :: "string \<Rightarrow> Molecule \<Rightarrow> string list" where
  "hydrogenIdsOf atomId M = foldl (hydrogenIdsStep atomId (atoms M)) [] (bonds M)"

definition getConnectedHydrogens :: "string \<Rightarrow> Molecule \<Rightarrow> Atom list" where
  "getConnectedHydrogens atomId M =
     filter (\<lambda>atom. atom_id atom \<in> set (hydrogenIdsOf atomId M)) (atoms M)"

section \<open>Fresh identifiers\<close>

text \<open>
  \<^verbatim>\<open>uuidv4()\<close> is an effect: every call returns the next identifier of the generator.
  The generator is the sequence \<open>u\<close> of the identifiers it will return and the number
  \<open>g\<close> of identifiers already drawn; each function that draws identifiers returns the
  new count with its result.
\<close>

definition uuidv4 :: "(nat \<Rightarrow> string) \<Rightarrow> nat \<Rightarrow> string \<times> nat" where
  "uuidv4 u g = (u g, Suc g)"

section \<open>Hydrogen placement, simple mode\<close>

definition hydrogenDistance :: real where
  "hydrogenDistance = 30"

text \<open>
  The hydrogen atom and its bond to the parent, built at a given angle: the body shared
  by the two placement loops. The atom's id is drawn first, the bond's id second.
\<close>

definition newHydrogen :: "(nat \<Rightarrow> string) \<Rightarrow> nat \<Rightarrow> Atom \<Rightarrow> real \<Rightarrow> Atom \<times> Bond \<times> nat" where
  "newHydrogen u g atom ang =
     (let hydrogenPosition =
            \<lparr>pos_x = pos_x (position atom) + cos ang * hydrogenDistance,
             pos_y = pos_y (position atom) + sin ang * hydrogenDistance\<rparr>;
          (aid, g1) = uuidv4 u g;
          hydrogenAtom = \<lparr>atom_id = aid, element = ''H'', position = hydrogenPosition\<rparr>;
          (bid, g2) = uuidv4 u g1;
          hydrogenBond = \<lparr>bond_id = bid, sourceAtomId = atom_id atom,
                          targetAtomId = atom_id hydrogenAtom, bond_type = Single\<rparr>
      in (hydrogenAtom, hydrogenBond, g2))"

function addSpecificLoop ::
  "(nat \<Rightarrow> string) \<Rightarrow> Atom \<Rightarrow> real \<Rightarrow> int \<Rightarrow> int \<Rightarrow> nat \<Rightarrow> Atom list \<Rightarrow> Bond list
     \<Rightarrow> Atom list \<times> Bond list \<times> nat" where
  "addSpecificLoop u atom angleStep numberOfHydrogens i g newAtoms newBonds =
     (if i < numberOfHydrogens
      then (case newHydrogen u g atom (real_of_int i * angleStep) of
              (hydrogenAtom, hydrogenBond, g') \<Rightarrow>
                addSpecificLoop u atom angleStep numberOfHydrogens (i + 1) g'
                  (newAtoms @ [hydrogenAtom]) (newBonds @ [hydrogenBond]))
      else (newAtoms, newBonds, g))"
  by pat_completeness auto
termination
  by (relation "measure (\<lambda>(u, atom, angleStep, n, i, g, na, nb). nat (n - i))") auto

definition addSpecificHydrogens ::
  "(nat \<Rightarrow> string) \<Rightarrow> nat \<Rightarrow> Atom \<Rightarrow> Molecule \<Rightarrow> int \<Rightarrow> Molecule \<times> nat" where
  "addSpecificHydrogens u g atom M numberOfHydrogens =
     (if numberOfHydrogens \<le> 0 then (M, g)
      else
        let angleStep = (2 * pi) / real_of_int (max numberOfHydrogens 3)
        in (case addSpecificLoop u atom angleStep numberOfHydrogens 0 g [] [] of
              (newAtoms, newBonds, g') \<Rightarrow>
                (\<lparr>atoms = atoms M @ newAtoms, bonds = bonds M @ newBonds\<rparr>, g')))"

definition addHydrogensToAtom ::
  "ValenceTable \<Rightarrow> (nat \<Rightarrow> string) \<Rightarrow> nat \<Rightarrow> Atom \<Rightarrow> Molecule \<Rightarrow> Molecule \<times> nat" where
  "addHydrogensToAtom vt u g atom M =
     (let neededHydrogens = getRequiredHydrogens vt atom (bonds M)
      in addSpecificHydrogens u g atom M neededHydrogens)"

section \<open>The valence reconciler: bond formed\<close>

text \<open>
  \<^verbatim>\<open>slice(0, n)\<close> is \<open>take\<close>; \<^verbatim>\<open>ids.includes(x)\<close> is membership in the list of ids.
\<close>

definition withoutAtoms :: "string list \<Rightarrow> Molecule \<Rightarrow> Molecule" where
  "withoutAtoms ids M =
     \<lparr>atoms = filter (\<lambda>atom. atom_id atom \<notin> set ids) (atoms M),
      bonds = filter (\<lambda>bond. sourceAtomId bond \<notin> set ids \<and> targetAtomId bond \<notin> set ids) (bonds M)\<rparr>"

definition updateHydrogensAfterBonding :: "ValenceTable \<Rightarrow> string \<Rightarrow> Molecule \<Rightarrow> Molecule" where
  "updateHydrogensAfterBonding vt atomId M =
     (case find (\<lambda>a. atom_id a = atomId) (atoms M) of
        None \<Rightarrow> M
      | Some atom \<Rightarrow>
          let connectedHydrogens = getConnectedHydrogens atomId M;
              currentBonds = getAtomBondCount atomId (bonds M);
              targetValence = getBestValenceForBondCount vt (element atom) currentBonds
          in if falsy targetValence then M
             else (case targetValence of
                     None \<Rightarrow> M
                   | Some tv \<Rightarrow>
                       let excessHydrogens = max 0 (currentBonds - tv);
                           hydrogensToRemove = min excessHydrogens (int (length connectedHydrogens))
                       in if hydrogensToRemove \<le> 0 then M
                          else
                            let hydrogensToRemoveIds =
                                  map atom_id (take (nat hydrogensToRemove) connectedHydrogens)
                            in withoutAtoms hydrogensToRemoveIds M))"

definition updateMoleculeAfterBonding :: "ValenceTable \<Rightarrow> string \<Rightarrow> string \<Rightarrow> Molecule \<Rightarrow> Molecule" where
  "updateMoleculeAfterBonding vt sourceId targetId M =
     updateHydrogensAfterBonding vt targetId (updateHydrogensAfterBonding vt sourceId M)"

section \<open>Bond feasibility\<close>

definition canBondAtoms :: "ValenceTable \<Rightarrow> string \<Rightarrow> string \<Rightarrow> Molecule \<Rightarrow> int \<Rightarrow> bool" where
  "canBondAtoms vt sourceId targetId M bondOrder =
     (case find (\<lambda>a. atom_id a = sourceId) (atoms M) of
        None \<Rightarrow> False
      | Some sourceAtom \<Rightarrow>
          (case find (\<lambda>a. atom_id a = targetId) (atoms M) of
             None \<Rightarrow> False
           | Some targetAtom \<Rightarrow>
               canAcceptMoreBonds vt (element sourceAtom)
                  (getAtomBondCount sourceId (bonds M)) bondOrder
               \<and> canAcceptMoreBonds vt (element targetAtom)
                  (getAtomBondCount targetId (bonds M)) bondOrder))"

section \<open>Hydrogen placement, collision-aware mode\<close>

text \<open>
  \<^verbatim>\<open>Math.atan2(y, x)\<close> over the reals: the angle of the point \<open>(x, y)\<close> in \<open>(-\<pi>, \<pi>]\<close>,
  and 0 at the origin.
\<close>

definition atan2 :: "real \<Rightarrow> real \<Rightarrow> real" where
  "atan2 y x =
     (if 0 < x then arctan (y / x)
      else if x < 0 \<and> 0 \<le> y then arctan (y / x) + pi
      else if x < 0 \<and> y < 0 then arctan (y / x) - pi
      else if 0 < y then pi / 2
      else if y < 0 then - (pi / 2)
      else 0)"

record PolarPos =
  pp_angle :: real
  pp_distance :: real

definition normalizedDiff :: "real \<Rightarrow> real \<Rightarrow> real" where
  "normalizedDiff testAngle a =
     (let angleDiff = \<bar>testAngle - a\<bar> in min angleDiff (pi * 2 - angleDiff))"

text \<open>The two inner \<^verbatim>\<open>for ... of\<close> loops: the least normalised difference, from \<open>2\<pi>\<close> down.\<close>

definition minDistanceTo :: "real \<Rightarrow> PolarPos list \<Rightarrow> real list \<Rightarrow> real" where
  "minDistanceTo testAngle existingPositions existingAtomAngles =
     (let m1 = foldl (\<lambda>minDistance pos. min minDistance (normalizedDiff testAngle (pp_angle pos)))
                 (pi * 2) existingPositions
      in foldl (\<lambda>minDistance existingAngle. min minDistance (normalizedDiff testAngle existingAngle))
           m1 existingAtomAngles)"

text \<open>
  The scan \<^verbatim>\<open>for (testAngle = 0; testAngle < 2\<pi>; testAngle += \<pi>/6)\<close>, carrying
  \<open>bestAngle\<close> and \<open>maxDistance\<close>; a candidate replaces the best one only when it is
  strictly farther.
\<close>

function scanAngles :: "PolarPos list \<Rightarrow> real list \<Rightarrow> real \<Rightarrow> real \<Rightarrow> real \<Rightarrow> real" where
  "scanAngles existingPositions existingAtomAngles testAngle bestAngle maxDistance =
     (if testAngle < pi * 2
      then (let minDistance = minDistanceTo testAngle existingPositions existingAtomAngles
            in if minDistance > maxDistance
               then scanAngles existingPositions existingAtomAngles (testAngle + pi / 6)
                      testAngle minDistance
               else scanAngles existingPositions existingAtomAngles (testAngle + pi / 6)
                      bestAngle maxDistance)
      else bestAngle)"
  by pat_completeness auto
termination
proof (relation "measure (\<lambda>(eps, eas, t, b, m). nat \<lceil>(pi * 2 - t) * 6 / pi\<rceil>)")
  show "wf (measure (\<lambda>(eps, eas, t, b, m). nat \<lceil>(pi * 2 - t) * 6 / pi\<rceil>))"
    by simp
next
  have step: "nat \<lceil>(pi * 2 - (t + pi / 6)) * 6 / pi\<rceil> < nat \<lceil>(pi * 2 - t) * 6 / pi\<rceil>"
    if "t < pi * 2" for t :: real
  proof -
    have e: "(pi * 2 - (t + pi / 6)) * 6 / pi = (pi * 2 - t) * 6 / pi - 1"
      by (simp add: field_simps)
    have "0 < (pi * 2 - t) * 6 / pi"
      using that by simp
    then have "0 < \<lceil>(pi * 2 - t) * 6 / pi\<rceil>"
      by (simp add: ceiling_less_iff less_ceiling_iff)
    then show ?thesis
      unfolding e by simp
  qed
  {
    fix eps :: "PolarPos list" and eas :: "real list" and t b m x :: real
    assume "t < pi * 2"
    then show "((eps, eas, t + pi / 6, t, x), (eps, eas, t, b, m))
        \<in> measure (\<lambda>(eps, eas, t, b, m). nat \<lceil>(pi * 2 - t) * 6 / pi\<rceil>)"
      using step [of t] by simp
  }
  {
    fix eps :: "PolarPos list" and eas :: "real list" and t b m :: real
    assume "t < pi * 2"
    then show "((eps, eas, t + pi / 6, b, m), (eps, eas, t, b, m))
        \<in> measure (\<lambda>(eps, eas, t, b, m). nat \<lceil>(pi * 2 - t) * 6 / pi\<rceil>)"
      using step [of t] by simp
  }
qed

text \<open>
  The outer loop of the collision-aware path: each round scans for the best angle, builds
  the hydrogen there and pushes the angle onto \<open>existingPositions\<close>.
\<close>

function placeLoop ::
  "(nat \<Rightarrow> string) \<Rightarrow> Atom \<Rightarrow> real list \<Rightarrow> int \<Rightarrow> int \<Rightarrow> nat \<Rightarrow> PolarPos list \<Rightarrow> Atom list
     \<Rightarrow> Bond list \<Rightarrow> PolarPos list \<times> Atom list \<times> Bond list \<times> nat" where
  "placeLoop u atom existingAtomAngles hydrogensToAdd i g existingPositions newAtoms newBonds =
     (if i < hydrogensToAdd
      then (let finalAngle = scanAngles existingPositions existingAtomAngles 0 0 0
            in (case newHydrogen u g atom finalAngle of
                  (hydrogenAtom, hydrogenBond, g') \<Rightarrow>
                    placeLoop u atom existingAtomAngles hydrogensToAdd (i + 1) g'
                      (existingPositions @ [\<lparr>pp_angle = finalAngle, pp_distance = hydrogenDistance\<rparr>])
                      (newAtoms @ [hydrogenAtom]) (newBonds @ [hydrogenBond])))
      else (existingPositions, newAtoms, newBonds, g))"
  by pat_completeness auto
termination
  by (relation "measure (\<lambda>(u, atom, eas, n, i, g, eps, na, nb). nat (n - i))") auto

section \<open>The valence reconciler: bond removed\<close>

definition existingPositionsOf :: "Atom \<Rightarrow> Atom list \<Rightarrow> PolarPos list" where
  "existingPositionsOf atom currentHydrogens =
     map (\<lambda>h. \<lparr>pp_angle = atan2 (pos_y (position h) - pos_y (position atom))
                               (pos_x (position h) - pos_x (position atom)),
                pp_distance = sqrt ((pos_x (position h) - pos_x (position atom))\<^sup>2
                                  + (pos_y (position h) - pos_y (position atom))\<^sup>2)\<rparr>)
         currentHydrogens"

text \<open>
  The bonded atoms that are not hydrogens: for every bond at the atom, the atom found at
  its other end, when there is one and its element is not H.
\<close>

definition bondedAtomsOf :: "string \<Rightarrow> Molecule \<Rightarrow> Atom list" where
  "bondedAtomsOf atomId M =
     concat (map (\<lambda>bond.
        let otherAtomId = (if sourceAtomId bond = atomId then targetAtomId bond
                           else sourceAtomId bond)
        in (case find (\<lambda>a. atom_id a = otherAtomId) (atoms M) of
              None \<Rightarrow> []
            | Some a \<Rightarrow> if element a \<noteq> ''H'' then [a] else []))
       (filter (\<lambda>bond. sourceAtomId bond = atomId \<or> targetAtomId bond = atomId) (bonds M)))"

definition existingAtomAnglesOf :: "Atom \<Rightarrow> Atom list \<Rightarrow> real list" where
  "existingAtomAnglesOf atom bondedAtoms =
     map (\<lambda>a. atan2 (pos_y (position a) - pos_y (position atom))
                     (pos_x (position a) - pos_x (position atom))) bondedAtoms"

definition updateHydrogensAfterBondRemoval ::
  "ValenceTable \<Rightarrow> (nat \<Rightarrow> string) \<Rightarrow> nat \<Rightarrow> string \<Rightarrow> Molecule \<Rightarrow> Molecule \<times> nat" where
  "updateHydrogensAfterBondRemoval vt u g atomId M =
     (case find (\<lambda>a. atom_id a = atomId) (atoms M) of
        None \<Rightarrow> (M, g)
      | Some atom \<Rightarrow>
          if element atom = ''H'' then (M, g)
          else
            let neededHydrogens = getRequiredHydrogens vt atom (bonds M);
                currentHydrogens = getConnectedHydrogens atomId M
            in if neededHydrogens > int (length currentHydrogens)
               then
                 let hydrogensToAdd = neededHydrogens - int (length currentHydrogens);
                     existingPositions = existingPositionsOf atom currentHydrogens;
                     existingAtomAngles = existingAtomAnglesOf atom (bondedAtomsOf atomId M)
                 in (case placeLoop u atom existingAtomAngles hydrogensToAdd 0 g
                            existingPositions [] [] of
                       (finalPositions, newAtoms, newBonds, g') \<Rightarrow>
                         (\<lparr>atoms = atoms M @ newAtoms, bonds = bonds M @ newBonds\<rparr>, g'))
               else (M, g))"

section \<open>The valence reconciler: bond type changed\<close>

text \<open>The first half of a round: all hydrogens connected to the atom go, with their bonds.\<close>

definition stripHydrogens :: "string \<Rightarrow> Molecule \<Rightarrow> Molecule" where
  "stripHydrogens atomId M =
     (let existingHydrogens = getConnectedHydrogens atomId M;
          hydrogenIds = map atom_id existingHydrogens
      in withoutAtoms hydrogenIds M)"

text \<open>One round of the loop over the two endpoints; \<^verbatim>\<open>continue\<close> leaves the state as it is.\<close>

definition bondTypeChangeStep ::
  "ValenceTable \<Rightarrow> (nat \<Rightarrow> string) \<Rightarrow> Molecule \<times> nat \<Rightarrow> string \<Rightarrow> Molecule \<times> nat" where
  "bondTypeChangeStep vt u st atomId =
     (case st of (updatedMolecule, g) \<Rightarrow>
        (case find (\<lambda>a. atom_id a = atomId) (atoms updatedMolecule) of
           None \<Rightarrow> (updatedMolecule, g)
         | Some atom \<Rightarrow>
             if element atom = ''H'' then (updatedMolecule, g)
             else
               let stripped = stripHydrogens atomId updatedMolecule;
                   neededHydrogens = getRequiredHydrogens vt atom (bonds stripped)
               in if neededHydrogens > 0 then addHydrogensToAtom vt u g atom stripped
                  else (stripped, g)))"

definition updateHydrogensAfterBondTypeChange ::
  "ValenceTable \<Rightarrow> (nat \<Rightarrow> string) \<Rightarrow> nat \<Rightarrow> string \<Rightarrow> string \<Rightarrow> Molecule \<Rightarrow> Molecule \<times> nat" where
  "updateHydrogensAfterBondTypeChange vt u g sourceId targetId M =
     foldl (bondTypeChangeStep vt u) (M, g) [sourceId, targetId]"

section \<open>A valence table for concrete runs\<close>

text \<open>
  Modelled from the spec: the valence table itself is not among the sources. The spec
  names three entries (carbon 4; nitrogen 3; sulfur 2, 4, 6), says that the best valence is
  the smallest canonical valence that is at least the current bond-order sum, or the
  largest one when none is, and absent for an element without an entry, and that an atom
  accepts more bonds when the sum plus the proposed order does not exceed the largest
  canonical valence. This table is used for concrete runs only; the general results hold
  for every table.
\<close>

definition specValences :: "string \<Rightarrow> int list" where
  "specValences e =
     (if e = ''C'' then [4] else if e = ''N'' then [3] else if e = ''S'' then [2, 4, 6] else [])"

definition specBestValence :: "string \<Rightarrow> int \<Rightarrow> int option" where
  "specBestValence e current =
     (case filter (\<lambda>v. current \<le> v) (specValences e) of
        v # _ \<Rightarrow> Some v
      | [] \<Rightarrow> (case specValences e of [] \<Rightarrow> None | w # ws \<Rightarrow> Some (last (w # ws))))"

definition specCanAccept :: "string \<Rightarrow> int \<Rightarrow> int \<Rightarrow> bool" where
  "specCanAccept e current additional =
     (case specValences e of [] \<Rightarrow> False | w # ws \<Rightarrow> current + additional \<le> last (w # ws))"

definition specTable :: ValenceTable where
  "specTable = \<lparr>getBestValenceForBondCount = specBestValence, canAcceptMoreBonds = specCanAccept\<rparr>"

text \<open>A generator for concrete runs: the n-th identifier is \<open>#\<close> followed by n marks.\<close>

definition testUuid :: "nat \<Rightarrow> string" where
  "testUuid n = CHR ''#'' # replicate n (CHR ''i'')"

section \<open>The hydrogens the placements build\<close>

text \<open>
  The k-th hydrogen atom and bond of a simple-mode placement with angular step \<open>step\<close>,
  when \<open>g\<close> identifiers were drawn before: closed forms of the loop body, used to state
  what the loop returns. \<open>withHydrogens\<close> appends the first k of them to a molecule;
  \<open>simpleStep\<close> is the angular step for a count; \<open>angleAt\<close> is the point at an angle on the
  circle of radius 30 around an atom; \<open>candidate n\<close> is the n-th angle the collision-aware
  scan tries.
\<close>

definition hAtomAt :: "(nat \<Rightarrow> string) \<Rightarrow> nat \<Rightarrow> Atom \<Rightarrow> real \<Rightarrow> nat \<Rightarrow> Atom" where
  "hAtomAt u g atom step k =
     \<lparr>atom_id = u (g + 2 * k), element = ''H'',
       position = \<lparr>pos_x = pos_x (position atom) + cos (real k * step) * 30,
                   pos_y = pos_y (position atom) + sin (real k * step) * 30\<rparr>\<rparr>"

definition hBondAt :: "(nat \<Rightarrow> string) \<Rightarrow> nat \<Rightarrow> Atom \<Rightarrow> nat \<Rightarrow> Bond" where
  "hBondAt u g atom k =
     \<lparr>bond_id = u (g + 2 * k + 1), sourceAtomId = atom_id atom, targetAtomId = u (g + 2 * k),
      bond_type = Single\<rparr>"

definition withHydrogens ::
  "(nat \<Rightarrow> string) \<Rightarrow> nat \<Rightarrow> Atom \<Rightarrow> real \<Rightarrow> nat \<Rightarrow> Molecule \<Rightarrow> Molecule" where
  "withHydrogens u g atom step k M =
     \<lparr>atoms = atoms M @ map (hAtomAt u g atom step) [0..<k],
      bonds = bonds M @ map (hBondAt u g atom) [0..<k]\<rparr>"

definition simpleStep :: "int \<Rightarrow> real" where
  "simpleStep n = 2 * pi / real_of_int (max n 3)"

definition angleAt :: "Atom \<Rightarrow> real \<Rightarrow> Point" where
  "angleAt atom a =
     \<lparr>pos_x = pos_x (position atom) + cos a * 30, pos_y = pos_y (position atom) + sin a * 30\<rparr>"

definition candidate :: "nat \<Rightarrow> real" where
  "candidate n = real n * (pi / 6)"

section \<open>Connected hydrogens, as predicates\<close>

text \<open>
  What \<open>getConnectedHydrogens\<close> tests for an id: that the first atom carrying it is a
  hydrogen, and that some bond at the atom asked about has it, non-empty, at its other end.
\<close>

definition isHydrogenId :: "Atom list \<Rightarrow> string \<Rightarrow> bool" where
  "isHydrogenId ats c =
     (case find (\<lambda>a. atom_id a = c) ats of None \<Rightarrow> False | Some h \<Rightarrow> element h = ''H'')"

definition linkedTo :: "string \<Rightarrow> Bond list \<Rightarrow> string \<Rightarrow> bool" where
  "linkedTo atomId bs c = (c \<noteq> [] \<and> (\<exists>b \<in> set bs. connectedAtomId atomId b = Some c))"

section \<open>Unique atom ids and new identifiers\<close>

text \<open>
  The data model gives every atom a unique id, and the generator is to return identifiers
  that are globally unique. \<open>freshFrom u g M\<close> says so for the identifiers still to come:
  they differ from one another, are not empty, and are no id that an atom or a bond end of
  \<open>M\<close> carries.
\<close>

definition molIds :: "Molecule \<Rightarrow> string set" where
  "molIds M = atom_id ` set (atoms M) \<union> sourceAtomId ` set (bonds M) \<union> targetAtomId ` set (bonds M)"

definition freshFrom :: "(nat \<Rightarrow> string) \<Rightarrow> nat \<Rightarrow> Molecule \<Rightarrow> bool" where
  "freshFrom u g M = (inj_on u {g..} \<and> (\<forall>i\<ge>g. u i \<noteq> [] \<and> u i \<notin> molIds M))"

definition wellFormed :: "(nat \<Rightarrow> string) \<Rightarrow> nat \<Rightarrow> Molecule \<Rightarrow> bool" where
  "wellFormed u g M = (distinct (map atom_id (atoms M)) \<and> freshFrom u g M)"

section \<open>Rounds of the bond-type-change loop, as predicates\<close>

text \<open>
  A round is \<open>active\<close> for an id when the atom found for it is not a hydrogen; it then
  returns the molecule \<open>rebuilt\<close>: stripped of the atom's hydrogens, with \<open>need\<close> new ones.
  An atom is \<open>settled\<close> when its hydrogens are bonded to it alone (\<open>exclusive\<close>) and are as
  many as it requires once they are stripped.
\<close>

definition active :: "string \<Rightarrow> Molecule \<Rightarrow> bool" where
  "active atomId M =
     (case find (\<lambda>a. atom_id a = atomId) (atoms M) of None \<Rightarrow> False | Some a \<Rightarrow> element a \<noteq> ''H'')"

definition stepReady :: "(nat \<Rightarrow> string) \<Rightarrow> nat \<Rightarrow> Atom \<Rightarrow> Molecule \<Rightarrow> bool" where
  "stepReady u g atom M =
     (atom \<in> set (atoms M) \<and> element atom \<noteq> ''H'' \<and> distinct (map atom_id (atoms M))
      \<and> freshFrom u g M)"

definition rebuilt :: "(nat \<Rightarrow> string) \<Rightarrow> nat \<Rightarrow> Atom \<Rightarrow> real \<Rightarrow> nat \<Rightarrow> Molecule \<Rightarrow> Molecule" where
  "rebuilt u g atom step k M = withHydrogens u g atom step k (stripHydrogens (atom_id atom) M)"

definition need :: "ValenceTable \<Rightarrow> Atom \<Rightarrow> Molecule \<Rightarrow> int" where
  "need vt atom M = getRequiredHydrogens vt atom (bonds (stripHydrogens (atom_id atom) M))"

definition exclusive :: "string \<Rightarrow> Molecule \<Rightarrow> bool" where
  "exclusive a M =
     (\<forall>h \<in> set (getConnectedHydrogens a M). \<forall>b \<in> set (bonds M).
        touches (atom_id h) b \<longrightarrow> touches a b)"

definition settled :: "ValenceTable \<Rightarrow> Atom \<Rightarrow> Molecule \<Rightarrow> bool" where
  "settled vt atom M =
     (exclusive (atom_id atom) M
      \<and> int (length (getConnectedHydrogens (atom_id atom) M)) = need vt atom M)"

definition heavyAt :: "string \<Rightarrow> Molecule \<Rightarrow> Atom \<Rightarrow> bool" where
  "heavyAt y M atom = (atom \<in> set (atoms M) \<and> atom_id atom = y \<and> element atom \<noteq> ''H'')"

definition good :: "ValenceTable \<Rightarrow> string \<Rightarrow> Molecule \<Rightarrow> bool" where
  "good vt y M = (\<forall>atom. heavyAt y M atom \<longrightarrow> settled vt atom M)"

section \<open>What a round may change\<close>

text \<open>
  \<open>heavyBond M b\<close>: both ends of the bond are ids of non-hydrogen atoms of \<open>M\<close>.
  \<open>frame u g g' M M'\<close> collects what one round from \<open>(M, g)\<close> to \<open>(M', g')\<close> keeps and what
  it may add or remove.
\<close>

definition heavyId :: "Molecule \<Rightarrow> string \<Rightarrow> bool" where
  "heavyId M i = (\<exists>a \<in> set (atoms M). atom_id a = i \<and> element a \<noteq> ''H'')"

definition heavyBond :: "Molecule \<Rightarrow> Bond \<Rightarrow> bool" where
  "heavyBond M b = (heavyId M (sourceAtomId b) \<and> heavyId M (targetAtomId b))"

definition frame :: "(nat \<Rightarrow> string) \<Rightarrow> nat \<Rightarrow> nat \<Rightarrow> Molecule \<Rightarrow> Molecule \<Rightarrow> bool" where
  "frame u g g' M M' =
     (g \<le> g'
      \<and> filter (\<lambda>a. element a \<noteq> ''H'') (atoms M') = filter (\<lambda>a. element a \<noteq> ''H'') (atoms M)
      \<and> filter (heavyBond M) (bonds M') = filter (heavyBond M) (bonds M)
      \<and> (\<forall>a \<in> set (atoms M'). a \<notin> set (atoms M) \<longrightarrow>
            element a = ''H'' \<and> (\<exists>i. g \<le> i \<and> i < g' \<and> atom_id a = u i))
      \<and> (\<forall>b \<in> set (bonds M'). b \<notin> set (bonds M) \<longrightarrow>
            (\<exists>h \<in> set (atoms M'). h \<notin> set (atoms M) \<and> targetAtomId b = atom_id h))
      \<and> (\<forall>b \<in> set (bonds M). b \<notin> set (bonds M') \<longrightarrow>
            (\<exists>h \<in> set (atoms M). h \<notin> set (atoms M') \<and> element h = ''H''
                \<and> touches (atom_id h) b))
      \<and> (\<forall>b \<in> set (bonds M'). \<forall>h \<in> set (atoms M). h \<notin> set (atoms M') \<longrightarrow>
            \<not> touches (atom_id h) b))"

section \<open>Molecules for concrete runs\<close>

definition atomAt :: "string \<Rightarrow> string \<Rightarrow> real \<Rightarrow> real \<Rightarrow> Atom" where
  "atomAt i e x y = \<lparr>atom_id = i, element = e, position = \<lparr>pos_x = x, pos_y = y\<rparr>\<rparr>"

definition bondOf :: "string \<Rightarrow> string \<Rightarrow> string \<Rightarrow> BondType \<Rightarrow> Bond" where
  "bondOf i s t ty = \<lparr>bond_id = i, sourceAtomId = s, targetAtomId = t, bond_type = ty\<rparr>"

definition loneCarbon :: Molecule where
  "loneCarbon = \<lparr>atoms = [atomAt ''c1'' ''C'' 0 0], bonds = []\<rparr>"

definition overbonded :: Molecule where
  "overbonded =
     \<lparr>atoms = [atomAt ''c1'' ''C'' 0 0, atomAt ''c2'' ''C'' 40 0, atomAt ''c3'' ''C'' 0 40],
      bonds = [bondOf ''b1'' ''c1'' ''c2'' Double, bondOf ''b2'' ''c1'' ''c3'' Triple]\<rparr>"

definition methaneBonded :: Molecule where
  "methaneBonded =
     \<lparr>atoms = [atomAt ''c1'' ''C'' 0 0, atomAt ''h1'' ''H'' 30 0, atomAt ''h2'' ''H'' 0 30,
               atomAt ''h3'' ''H'' (-30) 0, atomAt ''h4'' ''H'' 0 (-30), atomAt ''c2'' ''C'' 40 40],
      bonds = [bondOf ''b1'' ''c1'' ''h1'' Single, bondOf ''b2'' ''c1'' ''h2'' Single,
               bondOf ''b3'' ''c1'' ''h3'' Single, bondOf ''b4'' ''c1'' ''h4'' Single,
               bondOf ''b5'' ''c1'' ''c2'' Single]\<rparr>"

definition ethene :: Molecule where
  "ethene =
     \<lparr>atoms = [atomAt ''c1'' ''C'' 0 0, atomAt ''c2'' ''C'' 40 0, atomAt ''h1'' ''H'' 0 30,
               atomAt ''h2'' ''H'' (-30) 0, atomAt ''h3'' ''H'' 0 (-30)],
      bonds = [bondOf ''b1'' ''c1'' ''c2'' Double, bondOf ''b2'' ''c1'' ''h1'' Single,
               bondOf ''b3'' ''c1'' ''h2'' Single, bondOf ''b4'' ''h3'' ''c1'' Single]\<rparr>"

definition etheneOnce :: "Molecule \<times> nat" where
  "etheneOnce = updateHydrogensAfterBondTypeChange specTable testUuid 0 ''c1'' ''c2'' ethene"

definition etheneTwice :: "Molecule \<times> nat" where
  "etheneTwice =
     updateHydrogensAfterBondTypeChange specTable testUuid (snd etheneOnce) ''c1'' ''c2''
       (fst etheneOnce)"

definition ethaneSkeleton :: Molecule where
  "ethaneSkeleton =
     \<lparr>atoms = [atomAt ''c1'' ''C'' 0 0, atomAt ''c2'' ''C'' 40 0],
      bonds = [bondOf ''b1'' ''c1'' ''c2'' Single]\<rparr>"

section \<open>The loops, unfolded by hand\<close>

text \<open>The equations of the three loops are applied one round at a time, never by the simplifier.\<close>

declare addSpecificLoop.simps [simp del] scanAngles.simps [simp del] placeLoop.simps [simp del]

section \<open>Bond accounting: results\<close>

lemma foldl_count_shift:
  "foldl (\<lambda>count b. if sourceAtomId b = a \<or> targetAtomId b = a
        then count + BOND_ORDER (bond_type b) else count) (c::int) bs =
   c + foldl (\<lambda>count b. if sourceAtomId b = a \<or> targetAtomId b = a
        then count + BOND_ORDER (bond_type b) else count) 0 bs"
proof (induction bs arbitrary: c)
  case Nil
  show ?case by simp
next
  case (Cons b bs)
  show ?case
    using Cons.IH [of "c + BOND_ORDER (bond_type b)"] Cons.IH [of "BOND_ORDER (bond_type b)"]
      Cons.IH [of c]
    by simp
qed

lemma getAtomBondCount_Nil: "getAtomBondCount a [] = 0"
  by (simp add: getAtomBondCount_def)

lemma getAtomBondCount_Cons:
  "getAtomBondCount a (b # bs) =
     (if touches a b then BOND_ORDER (bond_type b) else 0) + getAtomBondCount a bs"
  unfolding getAtomBondCount_def touches_def
  using foldl_count_shift [of a "BOND_ORDER (bond_type b)" bs]
  by simp

lemma getAtomBondCount_sum:
  "getAtomBondCount a bs = sum_list (map (\<lambda>b. BOND_ORDER (bond_type b)) (filter (touches a) bs))"
  by (induction bs) (simp_all add: getAtomBondCount_Nil getAtomBondCount_Cons)

lemma getAtomBondCount_append:
  "getAtomBondCount a (xs @ ys) = getAtomBondCount a xs + getAtomBondCount a ys"
  by (simp add: getAtomBondCount_sum)

lemma BOND_ORDER_pos: "1 \<le> BOND_ORDER t"
  by (cases t) simp_all

lemma getAtomBondCount_nonneg: "0 \<le> getAtomBondCount a bs"
proof (induction bs)
  case Nil
  show ?case by (simp add: getAtomBondCount_Nil)
next
  case (Cons b bs)
  have "0 \<le> BOND_ORDER (bond_type b)"
    using BOND_ORDER_pos [of "bond_type b"] by linarith
  with Cons show ?case by (simp add: getAtomBondCount_Cons)
qed

text \<open>
  C2 (as found in the code). A self-bond, whose source and target are both the atom
  asked about, adds its order to the sum exactly once, wherever it stands in the bond
  list: the test is a single disjunction over the two endpoints.
\<close>

theorem self_bond_counted_once:
  "sourceAtomId b = a \<and> targetAtomId b = a \<longrightarrow>
     getAtomBondCount a (xs @ b # ys) = getAtomBondCount a (xs @ ys) + BOND_ORDER (bond_type b)"
  by (simp add: getAtomBondCount_append getAtomBondCount_Cons touches_def)

theorem self_bond_counted_once_witness:
  "sourceAtomId \<lparr>bond_id = ''b1'', sourceAtomId = ''a'', targetAtomId = ''a'', bond_type = Double\<rparr> = ''a''
   \<and> targetAtomId \<lparr>bond_id = ''b1'', sourceAtomId = ''a'', targetAtomId = ''a'', bond_type = Double\<rparr> = ''a''
   \<and> getAtomBondCount ''a''
        ([] @ \<lparr>bond_id = ''b1'', sourceAtomId = ''a'', targetAtomId = ''a'', bond_type = Double\<rparr> # [])
      = getAtomBondCount ''a'' ([] @ []) + 2"
  using self_bond_counted_once
    [of "\<lparr>bond_id = ''b1'', sourceAtomId = ''a'', targetAtomId = ''a'', bond_type = Double\<rparr>"
        "''a''" "[]" "[]"]
  by simp

text \<open>
  C2 (as stated) fails: a single self-bond of order 1 gives the sum 1, not 2.
\<close>

theorem self_bond_twice_counterexample:
  "sourceAtomId \<lparr>bond_id = ''b1'', sourceAtomId = ''a'', targetAtomId = ''a'', bond_type = Single\<rparr> = ''a''
   \<and> targetAtomId \<lparr>bond_id = ''b1'', sourceAtomId = ''a'', targetAtomId = ''a'', bond_type = Single\<rparr> = ''a''
   \<and> getAtomBondCount ''a''
        [\<lparr>bond_id = ''b1'', sourceAtomId = ''a'', targetAtomId = ''a'', bond_type = Single\<rparr>] = 1
   \<and> getAtomBondCount ''a''
        [\<lparr>bond_id = ''b1'', sourceAtomId = ''a'', targetAtomId = ''a'', bond_type = Single\<rparr>]
      \<noteq> 2 * BOND_ORDER Single"
  by (simp add: getAtomBondCount_def)


section \<open>Simple placement: results\<close>

lemma newHydrogen_eq:
  "newHydrogen u g atom ang =
     (\<lparr>atom_id = u g, element = ''H'',
       position = \<lparr>pos_x = pos_x (position atom) + cos ang * 30,
                   pos_y = pos_y (position atom) + sin ang * 30\<rparr>\<rparr>,
      \<lparr>bond_id = u (Suc g), sourceAtomId = atom_id atom, targetAtomId = u g, bond_type = Single\<rparr>,
      Suc (Suc g))"
  by (simp add: newHydrogen_def uuidv4_def hydrogenDistance_def)

lemma addSpecificLoop_closed:
  "addSpecificLoop u atom step (int n) (int i) (g + 2 * i) na nb =
     (na @ map (hAtomAt u g atom step) [i..<n],
      nb @ map (hBondAt u g atom) [i..<n],
      g + 2 * (max i n))"
proof (induction "n - i" arbitrary: i na nb)
  case 0
  then have "\<not> int i < int n" by simp
  moreover have "[i..<n] = []" using 0 by simp
  moreover have "max i n = i" using 0 by simp
  ultimately show ?case
    by (simp del: addSpecificLoop.simps add: addSpecificLoop.simps [of u atom step "int n" "int i"])
next
  case (Suc d)
  then have lt: "int i < int n" and d: "d = n - Suc i" by simp_all
  have up: "[i..<n] = i # [Suc i..<n]"
    using Suc.hyps(2) by (simp add: upt_conv_Cons)
  have m: "max i n = n" "max (Suc i) n = n" using Suc.hyps(2) by simp_all
  have "addSpecificLoop u atom step (int n) (int i) (g + 2 * i) na nb =
        addSpecificLoop u atom step (int n) (int (Suc i)) (g + 2 * Suc i)
          (na @ [hAtomAt u g atom step i]) (nb @ [hBondAt u g atom i])"
    using lt
    by (subst addSpecificLoop.simps)
       (simp add: newHydrogen_eq hAtomAt_def hBondAt_def add.commute)
  also have "\<dots> = ((na @ [hAtomAt u g atom step i]) @ map (hAtomAt u g atom step) [Suc i..<n],
      (nb @ [hBondAt u g atom i]) @ map (hBondAt u g atom) [Suc i..<n],
      g + 2 * (max (Suc i) n))"
    using Suc.hyps(1) [OF d] .
  finally show ?case
    by (simp add: up m)
qed

lemma addSpecificHydrogens_closed:
  assumes "0 < n"
  shows "addSpecificHydrogens u g atom M n =
     (\<lparr>atoms = atoms M @ map (hAtomAt u g atom (2 * pi / real_of_int (max n 3))) [0..<nat n],
       bonds = bonds M @ map (hBondAt u g atom) [0..<nat n]\<rparr>, g + 2 * nat n)"
proof -
  have n: "n = int (nat n)" using assms by simp
  have "addSpecificLoop u atom (2 * pi / real_of_int (max n 3)) (int (nat n)) (int 0) (g + 2 * 0) [] [] =
      ([] @ map (hAtomAt u g atom (2 * pi / real_of_int (max n 3))) [0..<nat n],
       [] @ map (hBondAt u g atom) [0..<nat n], g + 2 * (max 0 (nat n)))"
    by (rule addSpecificLoop_closed)
  then have "addSpecificLoop u atom (2 * pi / real_of_int (max n 3)) n 0 g [] [] =
      (map (hAtomAt u g atom (2 * pi / real_of_int (max n 3))) [0..<nat n],
       map (hBondAt u g atom) [0..<nat n], g + 2 * nat n)"
    using assms by simp
  then show ?thesis
    using assms by (simp add: addSpecificHydrogens_def Let_def)
qed

lemma addSpecificHydrogens_nonpos:
  "n \<le> 0 \<Longrightarrow> addSpecificHydrogens u g atom M n = (M, g)"
  by (simp add: addSpecificHydrogens_def)

lemma count_hBonds:
  "getAtomBondCount (atom_id atom) (map (hBondAt u g atom) ks) = int (length ks)"
  by (induction ks) (simp_all add: getAtomBondCount_Nil getAtomBondCount_Cons touches_def hBondAt_def)

lemma count_after_addSpecific:
  "getAtomBondCount (atom_id atom) (bonds (fst (addSpecificHydrogens u g atom M n))) =
     getAtomBondCount (atom_id atom) (bonds M) + max 0 n"
proof (cases "0 < n")
  case True
  then show ?thesis
    by (simp add: addSpecificHydrogens_closed getAtomBondCount_append count_hBonds)
next
  case False
  then show ?thesis
    by (simp add: addSpecificHydrogens_nonpos)
qed

lemma getRequiredHydrogens_cases:
  "getRequiredHydrogens vt atom bs =
     (case getBestValenceForBondCount vt (element atom) (getAtomBondCount (atom_id atom) bs) of
        None \<Rightarrow> 0
      | Some tv \<Rightarrow> if tv = 0 then 0 else max 0 (tv - getAtomBondCount (atom_id atom) bs))"
  by (simp add: getRequiredHydrogens_def falsy_def Let_def split: option.splits)

lemma getRequiredHydrogens_nonneg: "0 \<le> getRequiredHydrogens vt atom bs"
  by (simp add: getRequiredHydrogens_cases split: option.splits)

text \<open>
  C1 (as found in the code). Let s be the bond-order sum of the atom before the call and
  let the valence table answer the target tv for it. When s does not exceed tv, the bond-order
  sum of the atom in the molecule returned by \<open>addHydrogensToAtom\<close> is tv. When s exceeds tv
  (the table may answer the largest valence for an over-bonded atom), the call returns the
  molecule and the generator as they were, so the sum stays s.
\<close>

theorem valence_satisfaction:
  "getBestValenceForBondCount vt (element atom) (getAtomBondCount (atom_id atom) (bonds M)) = Some tv
   \<longrightarrow> (getAtomBondCount (atom_id atom) (bonds M) \<le> tv \<longrightarrow>
          getAtomBondCount (atom_id atom) (bonds (fst (addHydrogensToAtom vt u g atom M))) = tv)
     \<and> (tv < getAtomBondCount (atom_id atom) (bonds M) \<longrightarrow>
          addHydrogensToAtom vt u g atom M = (M, g))"
proof (intro impI conjI)
  assume tv: "getBestValenceForBondCount vt (element atom) (getAtomBondCount (atom_id atom) (bonds M)) = Some tv"
  {
    assume le: "getAtomBondCount (atom_id atom) (bonds M) \<le> tv"
    have nn: "0 \<le> getAtomBondCount (atom_id atom) (bonds M)"
      by (rule getAtomBondCount_nonneg)
    have "getRequiredHydrogens vt atom (bonds M) = tv - getAtomBondCount (atom_id atom) (bonds M)"
      using tv le nn by (auto simp add: getRequiredHydrogens_cases)
    then show "getAtomBondCount (atom_id atom) (bonds (fst (addHydrogensToAtom vt u g atom M))) = tv"
      using le by (simp add: addHydrogensToAtom_def count_after_addSpecific)
  }
  {
    assume "tv < getAtomBondCount (atom_id atom) (bonds M)"
    then have "getRequiredHydrogens vt atom (bonds M) = 0"
      using tv by (simp add: getRequiredHydrogens_cases)
    then show "addHydrogensToAtom vt u g atom M = (M, g)"
      by (simp add: addHydrogensToAtom_def addSpecificHydrogens_nonpos)
  }
qed

section \<open>Bond feasibility and orphan bonds: results\<close>

lemma find_absent:
  "atomId \<notin> atom_id ` set ats \<Longrightarrow> find (\<lambda>a. atom_id a = atomId) ats = None"
  by (auto simp add: find_None_iff)

text \<open>
  C7. \<open>canBondAtoms\<close> holds exactly when both atoms are found in the molecule and each
  passes \<open>canAcceptMoreBonds\<close> with its own element, its own bond-order sum and the proposed
  order; it is false when either id is absent. It is a predicate: its only result is the
  truth value, and the molecule is an argument that no result carries.
\<close>

theorem canBondAtoms_iff:
  "(canBondAtoms vt sourceId targetId M bondOrder \<longleftrightarrow>
      (\<exists>sourceAtom targetAtom.
         find (\<lambda>a. atom_id a = sourceId) (atoms M) = Some sourceAtom
       \<and> find (\<lambda>a. atom_id a = targetId) (atoms M) = Some targetAtom
       \<and> canAcceptMoreBonds vt (element sourceAtom) (getAtomBondCount sourceId (bonds M)) bondOrder
       \<and> canAcceptMoreBonds vt (element targetAtom) (getAtomBondCount targetId (bonds M)) bondOrder))
   \<and> (sourceId \<notin> atom_id ` set (atoms M) \<or> targetId \<notin> atom_id ` set (atoms M)
        \<longrightarrow> \<not> canBondAtoms vt sourceId targetId M bondOrder)"
proof -
  have iff: "canBondAtoms vt sourceId targetId M bondOrder \<longleftrightarrow>
      (\<exists>sourceAtom targetAtom.
         find (\<lambda>a. atom_id a = sourceId) (atoms M) = Some sourceAtom
       \<and> find (\<lambda>a. atom_id a = targetId) (atoms M) = Some targetAtom
       \<and> canAcceptMoreBonds vt (element sourceAtom) (getAtomBondCount sourceId (bonds M)) bondOrder
       \<and> canAcceptMoreBonds vt (element targetAtom) (getAtomBondCount targetId (bonds M)) bondOrder)"
  proof (cases "find (\<lambda>a. atom_id a = sourceId) (atoms M)")
    case None
    then show ?thesis by (simp add: canBondAtoms_def)
  next
    case s: (Some sourceAtom)
    show ?thesis
    proof (cases "find (\<lambda>a. atom_id a = targetId) (atoms M)")
      case None
      with s show ?thesis by (simp add: canBondAtoms_def)
    next
      case (Some targetAtom)
      with s show ?thesis by (simp add: canBondAtoms_def)
    qed
  qed
  have absent: "\<not> canBondAtoms vt sourceId targetId M bondOrder"
    if "sourceId \<notin> atom_id ` set (atoms M) \<or> targetId \<notin> atom_id ` set (atoms M)"
  proof -
    from that have "find (\<lambda>a. atom_id a = sourceId) (atoms M) = None
      \<or> find (\<lambda>a. atom_id a = targetId) (atoms M) = None"
      by (auto simp add: find_absent)
    then show ?thesis
    proof
      assume "find (\<lambda>a. atom_id a = sourceId) (atoms M) = None"
      then show ?thesis by (simp add: canBondAtoms_def)
    next
      assume "find (\<lambda>a. atom_id a = targetId) (atoms M) = None"
      then show ?thesis by (simp add: canBondAtoms_def split: option.splits)
    qed
  qed
  show ?thesis
  proof (intro conjI impI)
    show "canBondAtoms vt sourceId targetId M bondOrder \<longleftrightarrow>
      (\<exists>sourceAtom targetAtom.
         find (\<lambda>a. atom_id a = sourceId) (atoms M) = Some sourceAtom
       \<and> find (\<lambda>a. atom_id a = targetId) (atoms M) = Some targetAtom
       \<and> canAcceptMoreBonds vt (element sourceAtom) (getAtomBondCount sourceId (bonds M)) bondOrder
       \<and> canAcceptMoreBonds vt (element targetAtom) (getAtomBondCount targetId (bonds M)) bondOrder)"
      by (rule iff)
  next
    assume "sourceId \<notin> atom_id ` set (atoms M) \<or> targetId \<notin> atom_id ` set (atoms M)"
    then show "\<not> canBondAtoms vt sourceId targetId M bondOrder" by (rule absent)
  qed
qed

lemma find_distinct_self:
  "distinct (map atom_id ats) \<Longrightarrow> x \<in> set ats \<Longrightarrow> find (\<lambda>a. atom_id a = atom_id x) ats = Some x"
proof (induction ats)
  case Nil
  then show ?case by simp
next
  case (Cons a ats)
  then show ?case by (auto simp add: image_iff)
qed

lemma withoutAtoms_no_orphans:
  assumes "a \<in> set (atoms M)" and "a \<notin> set (atoms (withoutAtoms ids M))"
    and "b \<in> set (bonds (withoutAtoms ids M))"
  shows "sourceAtomId b \<noteq> atom_id a \<and> targetAtomId b \<noteq> atom_id a"
proof -
  from assms(1,2) have "atom_id a \<in> set ids"
    by (auto simp add: withoutAtoms_def)
  with assms(3) show ?thesis
    by (auto simp add: withoutAtoms_def)
qed

lemma updateHydrogensAfterBonding_cases:
  "updateHydrogensAfterBonding vt atomId M = M
   \<or> (\<exists>ids. updateHydrogensAfterBonding vt atomId M = withoutAtoms ids M)"
proof (cases "find (\<lambda>a. atom_id a = atomId) (atoms M)")
  case None
  then show ?thesis by (simp add: updateHydrogensAfterBonding_def)
next
  case (Some atom)
  show ?thesis
  proof (cases "getBestValenceForBondCount vt (element atom) (getAtomBondCount atomId (bonds M))")
    case None
    with Some show ?thesis by (simp add: updateHydrogensAfterBonding_def falsy_def)
  next
    case (Some tv)
    with \<open>find (\<lambda>a. atom_id a = atomId) (atoms M) = Some atom\<close> show ?thesis
      by (simp add: updateHydrogensAfterBonding_def falsy_def Let_def) blast
  qed
qed

text \<open>
  C8. After \<open>updateHydrogensAfterBonding\<close>, and after the stripping phase of a round of
  \<open>updateHydrogensAfterBondTypeChange\<close>, no bond of the result has the id of a removed atom
  as its source or its target.
\<close>

theorem no_orphan_bonds:
  "(\<forall>a \<in> set (atoms M). a \<notin> set (atoms (updateHydrogensAfterBonding vt atomId M)) \<longrightarrow>
      (\<forall>b \<in> set (bonds (updateHydrogensAfterBonding vt atomId M)).
          sourceAtomId b \<noteq> atom_id a \<and> targetAtomId b \<noteq> atom_id a))
   \<and> (\<forall>a \<in> set (atoms M). a \<notin> set (atoms (stripHydrogens atomId M)) \<longrightarrow>
      (\<forall>b \<in> set (bonds (stripHydrogens atomId M)).
          sourceAtomId b \<noteq> atom_id a \<and> targetAtomId b \<noteq> atom_id a))"
proof (intro conjI ballI impI)
  fix a b
  assume a: "a \<in> set (atoms M)" "a \<notin> set (atoms (updateHydrogensAfterBonding vt atomId M))"
    and b: "b \<in> set (bonds (updateHydrogensAfterBonding vt atomId M))"
  from updateHydrogensAfterBonding_cases [of vt atomId M]
  obtain ids where "updateHydrogensAfterBonding vt atomId M = withoutAtoms ids M"
    using a by auto
  with a b withoutAtoms_no_orphans [of a M ids b]
  show "sourceAtomId b \<noteq> atom_id a" "targetAtomId b \<noteq> atom_id a" by simp_all
next
  fix a b
  assume a: "a \<in> set (atoms M)" "a \<notin> set (atoms (stripHydrogens atomId M))"
    and b: "b \<in> set (bonds (stripHydrogens atomId M))"
  with withoutAtoms_no_orphans [of a M "map atom_id (getConnectedHydrogens atomId M)" b]
  show "sourceAtomId b \<noteq> atom_id a" "targetAtomId b \<noteq> atom_id a"
    by (simp_all add: stripHydrogens_def Let_def)
qed

section \<open>Concrete runs\<close>

lemmas fixture_defs = atomAt_def bondOf_def loneCarbon_def overbonded_def methaneBonded_def
  specTable_def specBestValence_def specValences_def specCanAccept_def

theorem valence_satisfaction_witness:
  "getBestValenceForBondCount specTable (element (atomAt ''c1'' ''C'' 0 0))
      (getAtomBondCount (atom_id (atomAt ''c1'' ''C'' 0 0)) (bonds loneCarbon)) = Some 4
   \<and> getAtomBondCount (atom_id (atomAt ''c1'' ''C'' 0 0)) (bonds loneCarbon) \<le> 4
   \<and> getAtomBondCount (atom_id (atomAt ''c1'' ''C'' 0 0))
        (bonds (fst (addHydrogensToAtom specTable testUuid 0 (atomAt ''c1'' ''C'' 0 0) loneCarbon))) = 4"
  using valence_satisfaction [of specTable "atomAt ''c1'' ''C'' 0 0" loneCarbon 4 testUuid 0]
  by (simp add: fixture_defs getAtomBondCount_Nil)

theorem valence_satisfaction_counterexample:
  "getBestValenceForBondCount specTable (element (atomAt ''c1'' ''C'' 0 0))
      (getAtomBondCount (atom_id (atomAt ''c1'' ''C'' 0 0)) (bonds overbonded)) = Some 4
   \<and> getAtomBondCount (atom_id (atomAt ''c1'' ''C'' 0 0))
        (bonds (fst (addHydrogensToAtom specTable testUuid 0 (atomAt ''c1'' ''C'' 0 0) overbonded))) = 5
   \<and> getAtomBondCount (atom_id (atomAt ''c1'' ''C'' 0 0))
        (bonds (fst (addHydrogensToAtom specTable testUuid 0 (atomAt ''c1'' ''C'' 0 0) overbonded))) \<noteq> 4"
  by (simp add: fixture_defs getAtomBondCount_Nil getAtomBondCount_Cons touches_def
      addHydrogensToAtom_def getRequiredHydrogens_cases addSpecificHydrogens_nonpos)

theorem canBondAtoms_iff_witness:
  "''zz'' \<notin> atom_id ` set (atoms overbonded)
   \<and> \<not> canBondAtoms specTable ''zz'' ''c2'' overbonded 1
   \<and> \<not> canBondAtoms specTable ''c1'' ''c2'' overbonded 1
   \<and> canBondAtoms specTable ''c2'' ''c3'' overbonded 1"
  using canBondAtoms_iff [of specTable "''zz''" "''c2''" overbonded 1]
    canBondAtoms_iff [of specTable "''c1''" "''c2''" overbonded 1]
    canBondAtoms_iff [of specTable "''c2''" "''c3''" overbonded 1]
  by (simp add: fixture_defs getAtomBondCount_Nil getAtomBondCount_Cons touches_def)

lemmas resolver_defs = getConnectedHydrogens_def hydrogenIdsOf_def hydrogenIdsStep_def
  connectedAtomId_def

lemma conn_methane:
  "getConnectedHydrogens ''c1'' methaneBonded =
     [atomAt ''h1'' ''H'' 30 0, atomAt ''h2'' ''H'' 0 30, atomAt ''h3'' ''H'' (-30) 0,
      atomAt ''h4'' ''H'' 0 (-30)]"
  by (simp add: resolver_defs fixture_defs)

lemma bonding_methane:
  "updateHydrogensAfterBonding specTable ''c1'' methaneBonded =
     \<lparr>atoms = [atomAt ''c1'' ''C'' 0 0, atomAt ''h2'' ''H'' 0 30,
               atomAt ''h3'' ''H'' (-30) 0, atomAt ''h4'' ''H'' 0 (-30), atomAt ''c2'' ''C'' 40 40],
      bonds = [bondOf ''b2'' ''c1'' ''h2'' Single,
               bondOf ''b3'' ''c1'' ''h3'' Single, bondOf ''b4'' ''c1'' ''h4'' Single,
               bondOf ''b5'' ''c1'' ''c2'' Single]\<rparr>"
  unfolding updateHydrogensAfterBonding_def conn_methane
  by (simp add: fixture_defs falsy_def withoutAtoms_def Let_def getAtomBondCount_def)

lemma strip_methane:
  "stripHydrogens ''c1'' methaneBonded =
     \<lparr>atoms = [atomAt ''c1'' ''C'' 0 0, atomAt ''c2'' ''C'' 40 40],
      bonds = [bondOf ''b5'' ''c1'' ''c2'' Single]\<rparr>"
  unfolding stripHydrogens_def conn_methane
  by (simp add: fixture_defs withoutAtoms_def Let_def)

theorem no_orphan_bonds_witness:
  "atomAt ''h1'' ''H'' 30 0 \<in> set (atoms methaneBonded)
   \<and> atomAt ''h1'' ''H'' 30 0 \<notin> set (atoms (updateHydrogensAfterBonding specTable ''c1'' methaneBonded))
   \<and> bondOf ''b5'' ''c1'' ''c2'' Single \<in> set (bonds (updateHydrogensAfterBonding specTable ''c1'' methaneBonded))
   \<and> sourceAtomId (bondOf ''b5'' ''c1'' ''c2'' Single) \<noteq> atom_id (atomAt ''h1'' ''H'' 30 0)
   \<and> targetAtomId (bondOf ''b5'' ''c1'' ''c2'' Single) \<noteq> atom_id (atomAt ''h1'' ''H'' 30 0)
   \<and> atomAt ''h1'' ''H'' 30 0 \<notin> set (atoms (stripHydrogens ''c1'' methaneBonded))
   \<and> bondOf ''b5'' ''c1'' ''c2'' Single \<in> set (bonds (stripHydrogens ''c1'' methaneBonded))"
  using no_orphan_bonds [of methaneBonded specTable "''c1''"]
  by (simp add: bonding_methane strip_methane) (simp add: fixture_defs)

section \<open>Simple placement: the atoms and bonds it builds\<close>

lemma distance_on_circle:
  "sqrt ((cos a)\<^sup>2 * 900 + (sin a)\<^sup>2 * 900) = (30::real)"
proof -
  have "(cos a)\<^sup>2 * 900 + (sin a)\<^sup>2 * 900 = ((sin a)\<^sup>2 + (cos a)\<^sup>2) * 900"
    by (simp only: distrib_right add.commute)
  also have "\<dots> = 30\<^sup>2"
    by (simp only: sin_cos_squared_add) simp
  finally have "sqrt ((cos a)\<^sup>2 * 900 + (sin a)\<^sup>2 * 900) = sqrt (30\<^sup>2)"
    by simp
  then show ?thesis by simp
qed

text \<open>
  C6. For a positive count n, simple-mode placement returns the molecule with exactly n
  atoms and n bonds appended. The i-th new atom (i = 0..n-1) is a hydrogen with a
  fresh id at angle i * 2\<pi> / max(n, 3) on the circle of radius 30 around the parent, and
  the i-th new bond is a single bond with a fresh id from the parent to that hydrogen. Every
  new atom is at distance 30 from the parent. For n = 3 the angles are 0, 2\<pi>/3, 4\<pi>/3 (the
  concrete run below). Coordinates are real numbers here.
\<close>

theorem simple_placement:
  "0 < n \<longrightarrow>
     addSpecificHydrogens u g atom M n =
       (\<lparr>atoms = atoms M @ map (\<lambda>i.
            \<lparr>atom_id = u (g + 2 * i), element = ''H'',
             position =
               \<lparr>pos_x = pos_x (position atom) + cos (real i * (2 * pi / real_of_int (max n 3))) * 30,
                pos_y = pos_y (position atom) + sin (real i * (2 * pi / real_of_int (max n 3))) * 30\<rparr>\<rparr>)
            [0..<nat n],
         bonds = bonds M @ map (\<lambda>i.
            \<lparr>bond_id = u (g + 2 * i + 1), sourceAtomId = atom_id atom,
             targetAtomId = u (g + 2 * i), bond_type = Single\<rparr>)
            [0..<nat n]\<rparr>,
        g + 2 * nat n)
   \<and> length (atoms (fst (addSpecificHydrogens u g atom M n))) = length (atoms M) + nat n
   \<and> length (bonds (fst (addSpecificHydrogens u g atom M n))) = length (bonds M) + nat n
   \<and> (\<forall>h \<in> set (drop (length (atoms M)) (atoms (fst (addSpecificHydrogens u g atom M n)))).
         element h = ''H''
       \<and> sqrt ((pos_x (position h) - pos_x (position atom))\<^sup>2
              + (pos_y (position h) - pos_y (position atom))\<^sup>2) = 30)"
proof (intro impI)
  assume n: "0 < n"
  have closed: "addSpecificHydrogens u g atom M n =
     (\<lparr>atoms = atoms M @ map (hAtomAt u g atom (2 * pi / real_of_int (max n 3))) [0..<nat n],
       bonds = bonds M @ map (hBondAt u g atom) [0..<nat n]\<rparr>, g + 2 * nat n)"
    using n by (rule addSpecificHydrogens_closed)
  have far: "element h = ''H'' \<and> sqrt ((pos_x (position h) - pos_x (position atom))\<^sup>2
              + (pos_y (position h) - pos_y (position atom))\<^sup>2) = 30"
    if "h \<in> set (map (hAtomAt u g atom (2 * pi / real_of_int (max n 3))) [0..<nat n])" for h
  proof -
    from that obtain k where "h = hAtomAt u g atom (2 * pi / real_of_int (max n 3)) k"
      by auto
    then show ?thesis
      by (simp add: hAtomAt_def distance_on_circle)
  qed
  show "addSpecificHydrogens u g atom M n =
       (\<lparr>atoms = atoms M @ map (\<lambda>i.
            \<lparr>atom_id = u (g + 2 * i), element = ''H'',
             position =
               \<lparr>pos_x = pos_x (position atom) + cos (real i * (2 * pi / real_of_int (max n 3))) * 30,
                pos_y = pos_y (position atom) + sin (real i * (2 * pi / real_of_int (max n 3))) * 30\<rparr>\<rparr>)
            [0..<nat n],
         bonds = bonds M @ map (\<lambda>i.
            \<lparr>bond_id = u (g + 2 * i + 1), sourceAtomId = atom_id atom,
             targetAtomId = u (g + 2 * i), bond_type = Single\<rparr>)
            [0..<nat n]\<rparr>,
        g + 2 * nat n)
   \<and> length (atoms (fst (addSpecificHydrogens u g atom M n))) = length (atoms M) + nat n
   \<and> length (bonds (fst (addSpecificHydrogens u g atom M n))) = length (bonds M) + nat n
   \<and> (\<forall>h \<in> set (drop (length (atoms M)) (atoms (fst (addSpecificHydrogens u g atom M n)))).
         element h = ''H''
       \<and> sqrt ((pos_x (position h) - pos_x (position atom))\<^sup>2
              + (pos_y (position h) - pos_y (position atom))\<^sup>2) = 30)"
    unfolding closed using far
    by (simp add: hAtomAt_def [abs_def] hBondAt_def [abs_def])
qed

text \<open>
  The run of C6 with n = 3 on a lone carbon at the origin.
\<close>

theorem simple_placement_witness:
  "(0::int) < 3
   \<and> atoms (fst (addSpecificHydrogens testUuid 0 (atomAt ''c1'' ''C'' 0 0) loneCarbon 3)) =
      [atomAt ''c1'' ''C'' 0 0,
       atomAt (testUuid 0) ''H'' (cos 0 * 30) (sin 0 * 30),
       atomAt (testUuid 2) ''H'' (cos (2 * pi / 3) * 30) (sin (2 * pi / 3) * 30),
       atomAt (testUuid 4) ''H'' (cos (4 * pi / 3) * 30) (sin (4 * pi / 3) * 30)]
   \<and> bonds (fst (addSpecificHydrogens testUuid 0 (atomAt ''c1'' ''C'' 0 0) loneCarbon 3)) =
      [bondOf (testUuid 1) ''c1'' (testUuid 0) Single,
       bondOf (testUuid 3) ''c1'' (testUuid 2) Single,
       bondOf (testUuid 5) ''c1'' (testUuid 4) Single]"
  using simple_placement [of 3 testUuid 0 "atomAt ''c1'' ''C'' 0 0" loneCarbon]
  by (simp add: atomAt_def bondOf_def loneCarbon_def upt_conv_Cons)

section \<open>The valence reconciler, bond formed: results\<close>

lemma hydrogenIdsStep_set:
  "set (hydrogenIdsStep a ats acc b) =
     set acc \<union> {c. connectedAtomId a b = Some c \<and> c \<noteq> [] \<and> isHydrogenId ats c}"
  by (auto simp add: hydrogenIdsStep_def isHydrogenId_def split: option.splits)

lemma hydrogenIds_foldl_set:
  "set (foldl (hydrogenIdsStep a ats) acc bs) =
     set acc \<union> {c. linkedTo a bs c \<and> isHydrogenId ats c}"
proof (induction bs arbitrary: acc)
  case Nil
  show ?case by (simp add: linkedTo_def)
next
  case (Cons b bs)
  show ?case
    unfolding foldl_Cons Cons.IH hydrogenIdsStep_set
    by (auto simp add: linkedTo_def)
qed

lemma set_hydrogenIdsOf:
  "set (hydrogenIdsOf a M) = {c. linkedTo a (bonds M) c \<and> isHydrogenId (atoms M) c}"
  by (simp add: hydrogenIdsOf_def hydrogenIds_foldl_set)

lemma getConnectedHydrogens_filter:
  "getConnectedHydrogens a M =
     filter (\<lambda>h. linkedTo a (bonds M) (atom_id h) \<and> isHydrogenId (atoms M) (atom_id h)) (atoms M)"
  by (simp add: getConnectedHydrogens_def set_hydrogenIdsOf)

lemma isHydrogenId_distinct:
  assumes "distinct (map atom_id ats)" and "h \<in> set ats"
  shows "isHydrogenId ats (atom_id h) \<longleftrightarrow> element h = ''H''"
  using find_distinct_self [OF assms] by (simp add: isHydrogenId_def)

lemma getConnectedHydrogens_distinct:
  assumes "distinct (map atom_id (atoms M))"
  shows "getConnectedHydrogens a M =
     filter (\<lambda>h. linkedTo a (bonds M) (atom_id h) \<and> element h = ''H'') (atoms M)"
  unfolding getConnectedHydrogens_filter
  by (rule filter_cong) (simp_all add: isHydrogenId_distinct [OF assms])

lemma connected_are_hydrogens:
  assumes "distinct (map atom_id (atoms M))" and "h \<in> set (getConnectedHydrogens a M)"
  shows "element h = ''H''"
  using assms(2) unfolding getConnectedHydrogens_distinct [OF assms(1)] by simp

lemma connected_subset: "set (getConnectedHydrogens a M) \<subseteq> set (atoms M)"
  by (auto simp add: getConnectedHydrogens_def)

lemma distinct_atoms: "distinct (map atom_id ats) \<Longrightarrow> distinct ats"
  by (rule distinct_map [THEN iffD1, THEN conjunct1])

lemma connected_distinct:
  "distinct (map atom_id (atoms M)) \<Longrightarrow> distinct (getConnectedHydrogens a M)"
  by (simp add: getConnectedHydrogens_def distinct_atoms)

lemma id_mem_iff:
  assumes "distinct (map atom_id ats)" and "set R \<subseteq> set ats" and "a \<in> set ats"
  shows "atom_id a \<in> atom_id ` set R \<longleftrightarrow> a \<in> set R"
proof
  assume "atom_id a \<in> atom_id ` set R"
  then obtain r where r: "r \<in> set R" "atom_id r = atom_id a" by auto
  have "inj_on atom_id (set ats)"
    using assms(1) by (simp add: distinct_map)
  with r assms(2,3) have "r = a"
    by (auto dest: inj_onD)
  with r show "a \<in> set R" by simp
qed auto

lemma withoutAtoms_atoms_distinct:
  assumes "distinct (map atom_id (atoms M))" and "set R \<subseteq> set (atoms M)"
  shows "atoms (withoutAtoms (map atom_id R) M) = filter (\<lambda>a. a \<notin> set R) (atoms M)"
  unfolding withoutAtoms_def
  using id_mem_iff [OF assms] by (auto intro: filter_cong)

lemma length_removed:
  assumes "distinct ats" and "distinct R" and "set R \<subseteq> set ats"
  shows "length (filter (\<lambda>a. a \<notin> set R) ats) + length R = length ats"
proof -
  have "length (filter (\<lambda>a. a \<in> set R) ats) = card ({a. a \<in> set R} \<inter> set ats)"
    using assms(1) by (rule distinct_length_filter)
  also have "{a. a \<in> set R} \<inter> set ats = set R"
    using assms(3) by auto
  also have "card (set R) = length R"
    using assms(2) by (rule distinct_card)
  finally have "length (filter (\<lambda>a. a \<in> set R) ats) = length R" .
  moreover have "length (filter (\<lambda>a. a \<in> set R) ats) + length (filter (\<lambda>a. a \<notin> set R) ats)
      = length ats"
    using sum_length_filter_compl [of "\<lambda>a. a \<in> set R" ats] by (simp add: comp_def)
  ultimately show ?thesis by simp
qed

lemma withoutAtoms_Nil: "withoutAtoms [] M = M"
  by (simp add: withoutAtoms_def)

lemma updateHydrogensAfterBonding_eq:
  assumes "find (\<lambda>a. atom_id a = atomId) (atoms M) = Some atom"
    and "getBestValenceForBondCount vt (element atom) (getAtomBondCount atomId (bonds M)) = Some tv"
    and "tv \<noteq> 0"
  shows "updateHydrogensAfterBonding vt atomId M =
     withoutAtoms (map atom_id
        (take (nat (min (max 0 (getAtomBondCount atomId (bonds M) - tv))
                        (int (length (getConnectedHydrogens atomId M)))))
              (getConnectedHydrogens atomId M))) M"
proof (cases "min (max 0 (getAtomBondCount atomId (bonds M) - tv))
                        (int (length (getConnectedHydrogens atomId M))) \<le> 0")
  case True
  then have "nat (min (max 0 (getAtomBondCount atomId (bonds M) - tv))
                        (int (length (getConnectedHydrogens atomId M)))) = 0"
    by simp
  then show ?thesis
    using assms True
    by (simp add: updateHydrogensAfterBonding_def falsy_def Let_def withoutAtoms_Nil)
next
  case False
  then show ?thesis
    using assms
    by (simp add: updateHydrogensAfterBonding_def falsy_def Let_def)
qed

text \<open>
  C3. Let the atom be found in a molecule whose atom ids are pairwise distinct (the data
  model's unique identity), and let the valence table answer a non-zero target tv for it
  (the code takes 0, like an absent answer, for no target). With hs the connected hydrogens in
  the order \<open>getConnectedHydrogens\<close> returns them and
  N = min (max 0 (bond-order sum - tv)) (length hs), \<open>updateHydrogensAfterBonding\<close> removes
  exactly the first N atoms of hs, all of them hydrogens, and exactly the bonds that have one of
  them as source or target. The result's atoms and bonds are the input's with these filtered
  out, so nothing is added and the order of what stays is kept.
\<close>

theorem bonding_removes_first_excess:
  assumes "find (\<lambda>a. atom_id a = atomId) (atoms M) = Some atom"
    and "getBestValenceForBondCount vt (element atom) (getAtomBondCount atomId (bonds M)) = Some tv"
    and "tv \<noteq> 0"
    and "distinct (map atom_id (atoms M))"
  shows "let hs = getConnectedHydrogens atomId M;
             N = nat (min (max 0 (getAtomBondCount atomId (bonds M) - tv)) (int (length hs)));
             removed = take N hs;
             M' = updateHydrogensAfterBonding vt atomId M
         in length removed = N
          \<and> (\<forall>h \<in> set removed. element h = ''H'')
          \<and> atoms M' = filter (\<lambda>a. a \<notin> set removed) (atoms M)
          \<and> length (atoms M') + N = length (atoms M)
          \<and> bonds M' = filter (\<lambda>b. sourceAtomId b \<notin> atom_id ` set removed
                                  \<and> targetAtomId b \<notin> atom_id ` set removed) (bonds M)"
proof -
  define hs where "hs = getConnectedHydrogens atomId M"
  define N where "N = nat (min (max 0 (getAtomBondCount atomId (bonds M) - tv)) (int (length hs)))"
  define removed where "removed = take N hs"
  define M' where "M' = updateHydrogensAfterBonding vt atomId M"
  have M': "M' = withoutAtoms (map atom_id removed) M"
    unfolding M'_def removed_def N_def hs_def
    using assms(1-3) by (rule updateHydrogensAfterBonding_eq)
  have "N \<le> length hs"
    unfolding N_def by simp
  then have len: "length removed = N"
    unfolding removed_def by simp
  have sub_hs: "set removed \<subseteq> set hs"
    unfolding removed_def by (rule set_take_subset)
  then have sub: "set removed \<subseteq> set (atoms M)"
    using connected_subset [of atomId M] unfolding hs_def by blast
  have hyd: "\<forall>h \<in> set removed. element h = ''H''"
    using sub_hs connected_are_hydrogens [OF assms(4), of _ atomId] unfolding hs_def by blast
  have dR: "distinct removed"
    unfolding removed_def hs_def using connected_distinct [OF assms(4)] by (rule distinct_take)
  have at: "atoms M' = filter (\<lambda>a. a \<notin> set removed) (atoms M)"
    unfolding M' using assms(4) sub by (rule withoutAtoms_atoms_distinct)
  have cnt: "length (atoms M') + N = length (atoms M)"
    unfolding at using length_removed [OF distinct_atoms [OF assms(4)] dR sub] len by simp
  have bd: "bonds M' = filter (\<lambda>b. sourceAtomId b \<notin> atom_id ` set removed
                                  \<and> targetAtomId b \<notin> atom_id ` set removed) (bonds M)"
    unfolding M' by (simp add: withoutAtoms_def)
  from len hyd at cnt bd show ?thesis
    unfolding Let_def hs_def [symmetric] N_def [symmetric] removed_def [symmetric] M'_def [symmetric]
    by blast
qed

text \<open>
  The run of C3 on a carbon with four hydrogens and a fifth bond: the first hydrogen goes.
\<close>

theorem bonding_removes_first_excess_witness:
  "find (\<lambda>a. atom_id a = ''c1'') (atoms methaneBonded) = Some (atomAt ''c1'' ''C'' 0 0)
   \<and> getBestValenceForBondCount specTable (element (atomAt ''c1'' ''C'' 0 0))
        (getAtomBondCount ''c1'' (bonds methaneBonded)) = Some 4
   \<and> distinct (map atom_id (atoms methaneBonded))
   \<and> take 1 (getConnectedHydrogens ''c1'' methaneBonded) = [atomAt ''h1'' ''H'' 30 0]
   \<and> length (atoms (updateHydrogensAfterBonding specTable ''c1'' methaneBonded)) + 1
        = length (atoms methaneBonded)
   \<and> atoms (updateHydrogensAfterBonding specTable ''c1'' methaneBonded) =
        [atomAt ''c1'' ''C'' 0 0, atomAt ''h2'' ''H'' 0 30, atomAt ''h3'' ''H'' (-30) 0,
         atomAt ''h4'' ''H'' 0 (-30), atomAt ''c2'' ''C'' 40 40]"
  using bonding_removes_first_excess
    [of "''c1''" methaneBonded "atomAt ''c1'' ''C'' 0 0" specTable 4]
  unfolding bonding_methane conn_methane
  by (simp add: fixture_defs getAtomBondCount_def)

section \<open>A round of the bond-type-change loop: its shape\<close>

lemma withHydrogens_0: "withHydrogens u g atom step 0 M = M"
  by (simp add: withHydrogens_def)

lemma addHydrogensToAtom_shape:
  "addHydrogensToAtom vt u g atom M =
     (withHydrogens u g atom (simpleStep (getRequiredHydrogens vt atom (bonds M)))
        (nat (getRequiredHydrogens vt atom (bonds M))) M,
      g + 2 * nat (getRequiredHydrogens vt atom (bonds M)))"
proof (cases "0 < getRequiredHydrogens vt atom (bonds M)")
  case True
  then show ?thesis
    by (simp add: addHydrogensToAtom_def addSpecificHydrogens_closed withHydrogens_def simpleStep_def)
next
  case False
  then show ?thesis
    by (simp add: addHydrogensToAtom_def addSpecificHydrogens_nonpos withHydrogens_0)
qed

lemma step_inactive:
  "\<not> active atomId M \<Longrightarrow> bondTypeChangeStep vt u (M, g) atomId = (M, g)"
  by (simp add: bondTypeChangeStep_def active_def split: option.splits)

lemma step_active:
  assumes "find (\<lambda>a. atom_id a = atomId) (atoms M) = Some atom" and "element atom \<noteq> ''H''"
  shows "bondTypeChangeStep vt u (M, g) atomId =
     (withHydrogens u g atom
        (simpleStep (getRequiredHydrogens vt atom (bonds (stripHydrogens atomId M))))
        (nat (getRequiredHydrogens vt atom (bonds (stripHydrogens atomId M))))
        (stripHydrogens atomId M),
      g + 2 * nat (getRequiredHydrogens vt atom (bonds (stripHydrogens atomId M))))"
proof (cases "0 < getRequiredHydrogens vt atom (bonds (stripHydrogens atomId M))")
  case True
  then show ?thesis
    using assms by (simp add: bondTypeChangeStep_def Let_def addHydrogensToAtom_shape)
next
  case False
  then show ?thesis
    using assms by (simp add: bondTypeChangeStep_def Let_def withHydrogens_0)
qed

lemma find_Some_id:
  "find (\<lambda>a. atom_id a = x) ats = Some a \<Longrightarrow> a \<in> set ats \<and> atom_id a = x"
  by (auto simp add: find_Some_iff)

lemma active_iff:
  assumes "distinct (map atom_id (atoms M))"
  shows "active x M \<longleftrightarrow> (\<exists>a \<in> set (atoms M). atom_id a = x \<and> element a \<noteq> ''H'')"
proof
  assume "active x M"
  then obtain a where "find (\<lambda>a. atom_id a = x) (atoms M) = Some a" "element a \<noteq> ''H''"
    by (auto simp add: active_def split: option.splits)
  then show "\<exists>a \<in> set (atoms M). atom_id a = x \<and> element a \<noteq> ''H''"
    using find_Some_id by blast
next
  assume "\<exists>a \<in> set (atoms M). atom_id a = x \<and> element a \<noteq> ''H''"
  then obtain a where a: "a \<in> set (atoms M)" "atom_id a = x" "element a \<noteq> ''H''" by blast
  from find_distinct_self [OF assms a(1)] a show "active x M"
    by (simp add: active_def)
qed

section \<open>A round keeps ids distinct and the generator fresh\<close>

lemma fresh_not_in:
  "freshFrom u g M \<Longrightarrow> g \<le> i \<Longrightarrow> u i \<notin> molIds M"
  by (simp add: freshFrom_def)

lemma fresh_nonempty:
  "freshFrom u g M \<Longrightarrow> g \<le> i \<Longrightarrow> u i \<noteq> []"
  by (simp add: freshFrom_def)

lemma fresh_inj:
  "freshFrom u g M \<Longrightarrow> g \<le> i \<Longrightarrow> g \<le> j \<Longrightarrow> u i = u j \<Longrightarrow> i = j"
  by (auto simp add: freshFrom_def inj_on_def)

lemma atom_id_in_molIds: "a \<in> set (atoms M) \<Longrightarrow> atom_id a \<in> molIds M"
  by (simp add: molIds_def)

lemma bond_ends_in_molIds:
  "b \<in> set (bonds M) \<Longrightarrow> sourceAtomId b \<in> molIds M \<and> targetAtomId b \<in> molIds M"
  by (simp add: molIds_def)

lemma atoms_stripHydrogens:
  "atoms (stripHydrogens a M) =
     filter (\<lambda>h. atom_id h \<notin> atom_id ` set (getConnectedHydrogens a M)) (atoms M)"
  by (simp add: stripHydrogens_def withoutAtoms_def Let_def)

lemma bonds_stripHydrogens:
  "bonds (stripHydrogens a M) =
     filter (\<lambda>b. sourceAtomId b \<notin> atom_id ` set (getConnectedHydrogens a M)
               \<and> targetAtomId b \<notin> atom_id ` set (getConnectedHydrogens a M)) (bonds M)"
  by (simp add: stripHydrogens_def withoutAtoms_def Let_def)

lemma atoms_rebuilt:
  "atoms (rebuilt u g atom step k M) =
     filter (\<lambda>h. atom_id h \<notin> atom_id ` set (getConnectedHydrogens (atom_id atom) M)) (atoms M)
     @ map (hAtomAt u g atom step) [0..<k]"
  by (simp add: rebuilt_def withHydrogens_def atoms_stripHydrogens)

lemma bonds_rebuilt:
  "bonds (rebuilt u g atom step k M) =
     filter (\<lambda>b. sourceAtomId b \<notin> atom_id ` set (getConnectedHydrogens (atom_id atom) M)
               \<and> targetAtomId b \<notin> atom_id ` set (getConnectedHydrogens (atom_id atom) M)) (bonds M)
     @ map (hBondAt u g atom) [0..<k]"
  by (simp add: rebuilt_def withHydrogens_def bonds_stripHydrogens)

lemma hAtomAt_simps:
  "atom_id (hAtomAt u g atom step j) = u (g + 2 * j)"
  "element (hAtomAt u g atom step j) = ''H''"
  by (simp_all add: hAtomAt_def)

lemma hBondAt_simps:
  "sourceAtomId (hBondAt u g atom j) = atom_id atom"
  "targetAtomId (hBondAt u g atom j) = u (g + 2 * j)"
  "bond_type (hBondAt u g atom j) = Single"
  by (simp_all add: hBondAt_def)

lemma new_ids_distinct:
  assumes "freshFrom u g M"
  shows "distinct (map (\<lambda>j. u (g + 2 * j)) [0..<k])"
proof -
  have "inj_on (\<lambda>j. u (g + 2 * j)) (set [0..<k])"
  proof (rule inj_onI)
    fix i j
    assume "u (g + 2 * i) = u (g + 2 * j)"
    then have "g + 2 * i = g + 2 * j"
      using fresh_inj [OF assms, of "g + 2 * i" "g + 2 * j"] by simp
    then show "i = j" by simp
  qed
  then show ?thesis
    by (simp add: distinct_map)
qed

lemma molIds_rebuilt:
  "molIds (rebuilt u g atom step k M) \<subseteq>
     molIds M \<union> {atom_id atom} \<union> {u i | i. g \<le> i \<and> i < g + 2 * k}"
proof -
  have "molIds (rebuilt u g atom step k M) \<subseteq>
     molIds M \<union> {atom_id atom} \<union> (\<lambda>j. u (g + 2 * j)) ` {0..<k}"
    unfolding molIds_def atoms_rebuilt bonds_rebuilt
    by (auto simp add: hAtomAt_simps hBondAt_simps)
  moreover have "(\<lambda>j. u (g + 2 * j)) ` {0..<k} \<subseteq> {u i | i. g \<le> i \<and> i < g + 2 * k}"
    by auto
  ultimately show ?thesis by blast
qed

lemma distinct_rebuilt:
  assumes "stepReady u g atom M"
  shows "distinct (map atom_id (atoms (rebuilt u g atom step k M)))"
proof -
  from assms have d: "distinct (map atom_id (atoms M))" and f: "freshFrom u g M"
    by (simp_all add: stepReady_def)
  have old: "distinct (map atom_id
      (filter (\<lambda>h. atom_id h \<notin> atom_id ` set (getConnectedHydrogens (atom_id atom) M)) (atoms M)))"
    using d by (rule distinct_map_filter)
  have new: "map atom_id (map (hAtomAt u g atom step) [0..<k]) = map (\<lambda>j. u (g + 2 * j)) [0..<k]"
    by (simp add: hAtomAt_simps comp_def)
  have disj: "atom_id h \<noteq> u (g + 2 * j)" if "h \<in> set (atoms M)" for j h
    using fresh_not_in [OF f, of "g + 2 * j"] atom_id_in_molIds [OF that] by auto
  have "set (map atom_id
      (filter (\<lambda>h. atom_id h \<notin> atom_id ` set (getConnectedHydrogens (atom_id atom) M)) (atoms M)))
      \<inter> set (map (\<lambda>j. u (g + 2 * j)) [0..<k]) = {}"
    using disj by auto
  with old new_ids_distinct [OF f, of k] show ?thesis
    unfolding atoms_rebuilt map_append distinct_append new by blast
qed

lemma fresh_rebuilt:
  assumes "stepReady u g atom M"
  shows "freshFrom u (g + 2 * k) (rebuilt u g atom step k M)"
proof -
  from assms have f: "freshFrom u g M" and a: "atom \<in> set (atoms M)"
    by (simp_all add: stepReady_def)
  have inj: "inj_on u {g + 2 * k..}"
    using f by (auto simp add: freshFrom_def inj_on_def)
  have "u i \<noteq> [] \<and> u i \<notin> molIds (rebuilt u g atom step k M)" if "g + 2 * k \<le> i" for i
  proof -
    have gi: "g \<le> i" using that by simp
    have 1: "u i \<notin> molIds M" using fresh_not_in [OF f gi] .
    have 2: "u i \<noteq> atom_id atom" using 1 atom_id_in_molIds [OF a] by auto
    have 3: "u i \<noteq> u j" if "g \<le> j" "j < g + 2 * k" for j
      using fresh_inj [OF f gi that(1)] that(2) \<open>g + 2 * k \<le> i\<close> by auto
    from 1 2 3 molIds_rebuilt [of u g atom step k M] fresh_nonempty [OF f gi]
    show ?thesis by auto
  qed
  with inj show ?thesis by (simp add: freshFrom_def)
qed

section \<open>Connected hydrogens after a round\<close>

lemma connectedAtomId_Some_iff:
  "connectedAtomId x b = Some c \<longleftrightarrow>
     (sourceAtomId b = x \<and> targetAtomId b = c)
     \<or> (sourceAtomId b \<noteq> x \<and> targetAtomId b = x \<and> sourceAtomId b = c)"
  by (auto simp add: connectedAtomId_def)

lemma linkedTo_append:
  "linkedTo x (bs @ cs) c \<longleftrightarrow> linkedTo x bs c \<or> linkedTo x cs c"
  by (auto simp add: linkedTo_def)

lemma linkedTo_iff:
  "linkedTo x bs c \<longleftrightarrow>
     c \<noteq> [] \<and> (\<exists>b \<in> set bs. (sourceAtomId b = x \<and> targetAtomId b = c)
                    \<or> (sourceAtomId b \<noteq> x \<and> targetAtomId b = x \<and> sourceAtomId b = c))"
  by (simp add: linkedTo_def connectedAtomId_Some_iff)

lemma linkedTo_touches:
  "linkedTo x bs c \<Longrightarrow> \<exists>b \<in> set bs. touches x b \<and> touches c b"
  by (auto simp add: linkedTo_iff touches_def)

lemma touches_linkedTo:
  assumes "b \<in> set bs" and "touches x b" and "touches c b" and "x \<noteq> c" and "c \<noteq> []"
  shows "linkedTo x bs c"
proof -
  from assms(2-4) have "(sourceAtomId b = x \<and> targetAtomId b = c)
      \<or> (sourceAtomId b \<noteq> x \<and> targetAtomId b = x \<and> sourceAtomId b = c)"
    unfolding touches_def by metis
  with assms(1,5) show ?thesis
    unfolding linkedTo_iff by blast
qed

lemma heavy_not_connected:
  assumes "distinct (map atom_id (atoms M))" and "h \<in> set (atoms M)" and "element h \<noteq> ''H''"
  shows "atom_id h \<notin> atom_id ` set (getConnectedHydrogens a M)"
proof
  assume "atom_id h \<in> atom_id ` set (getConnectedHydrogens a M)"
  then have "h \<in> set (getConnectedHydrogens a M)"
    using id_mem_iff [OF assms(1) connected_subset assms(2)] by simp
  then show False
    using connected_are_hydrogens [OF assms(1)] assms(3) by blast
qed

lemma linkedTo_new_bonds:
  "linkedTo x (map (hBondAt u g atom) [0..<k]) c \<longleftrightarrow>
     c \<noteq> [] \<and> (\<exists>j<k. (atom_id atom = x \<and> u (g + 2 * j) = c)
                   \<or> (atom_id atom \<noteq> x \<and> u (g + 2 * j) = x \<and> atom_id atom = c))"
  by (auto simp add: linkedTo_iff hBondAt_simps)

lemma linkedTo_filter:
  "linkedTo x (filter Q bs) c \<longleftrightarrow>
     c \<noteq> [] \<and> (\<exists>b \<in> set bs. Q b \<and> ((sourceAtomId b = x \<and> targetAtomId b = c)
                    \<or> (sourceAtomId b \<noteq> x \<and> targetAtomId b = x \<and> sourceAtomId b = c)))"
  by (auto simp add: linkedTo_iff)

lemma linkedTo_filter_ends:
  assumes "x \<notin> S" and "c \<notin> S"
  shows "linkedTo x (filter (\<lambda>b. sourceAtomId b \<notin> S \<and> targetAtomId b \<notin> S) bs) c
     \<longleftrightarrow> linkedTo x bs c"
proof
  assume "linkedTo x (filter (\<lambda>b. sourceAtomId b \<notin> S \<and> targetAtomId b \<notin> S) bs) c"
  then show "linkedTo x bs c"
    by (auto simp add: linkedTo_iff)
next
  assume "linkedTo x bs c"
  then obtain b where b: "c \<noteq> []" "b \<in> set bs"
      "(sourceAtomId b = x \<and> targetAtomId b = c)
       \<or> (sourceAtomId b \<noteq> x \<and> targetAtomId b = x \<and> sourceAtomId b = c)"
    unfolding linkedTo_iff by blast
  from b(3) assms have "sourceAtomId b \<notin> S \<and> targetAtomId b \<notin> S"
    by auto
  with b show "linkedTo x (filter (\<lambda>b. sourceAtomId b \<notin> S \<and> targetAtomId b \<notin> S) bs) c"
    unfolding linkedTo_filter by blast
qed

lemma linked_old_hydrogen:
  assumes r: "stepReady u g atom M"
    and h: "h \<in> set (atoms M)" "element h = ''H''"
      "atom_id h \<notin> atom_id ` set (getConnectedHydrogens (atom_id atom) M)"
    and x: "x \<notin> atom_id ` set (getConnectedHydrogens (atom_id atom) M)"
  shows "linkedTo x (bonds (rebuilt u g atom step k M)) (atom_id h)
     \<longleftrightarrow> linkedTo x (bonds M) (atom_id h)"
proof -
  from r have d: "distinct (map atom_id (atoms M))" and f: "freshFrom u g M"
    and a: "atom \<in> set (atoms M)" "element atom \<noteq> ''H''"
    by (simp_all add: stepReady_def)
  have nofresh: "u (g + 2 * j) \<noteq> atom_id h" for j
    using fresh_not_in [OF f, of "g + 2 * j"] atom_id_in_molIds [OF h(1)] by auto
  have notatom: "atom_id atom \<noteq> atom_id h"
  proof
    assume "atom_id atom = atom_id h"
    then have "atom = h"
      using d a(1) h(1) by (auto simp add: distinct_map dest: inj_onD)
    with a(2) h(2) show False by simp
  qed
  have new: "\<not> linkedTo x (map (hBondAt u g atom) [0..<k]) (atom_id h)"
    unfolding linkedTo_new_bonds using nofresh notatom by auto
  have old: "linkedTo x (filter (\<lambda>b. sourceAtomId b \<notin> atom_id ` set (getConnectedHydrogens (atom_id atom) M)
               \<and> targetAtomId b \<notin> atom_id ` set (getConnectedHydrogens (atom_id atom) M)) (bonds M))
        (atom_id h) \<longleftrightarrow> linkedTo x (bonds M) (atom_id h)"
    using x h(3) by (rule linkedTo_filter_ends)
  show ?thesis
    unfolding bonds_rebuilt linkedTo_append using new old by simp
qed

lemma linked_new_hydrogen:
  assumes r: "stepReady u g atom M" and j: "j < k"
  shows "linkedTo x (bonds (rebuilt u g atom step k M)) (u (g + 2 * j)) \<longleftrightarrow> x = atom_id atom"
proof -
  from r have f: "freshFrom u g M" and a: "atom \<in> set (atoms M)"
    by (simp_all add: stepReady_def)
  have ne: "u (g + 2 * j) \<noteq> []"
    using fresh_nonempty [OF f, of "g + 2 * j"] by simp
  have nb: "sourceAtomId b \<noteq> u (g + 2 * j) \<and> targetAtomId b \<noteq> u (g + 2 * j)"
    if "b \<in> set (bonds M)" for b
    using fresh_not_in [OF f, of "g + 2 * j"] bond_ends_in_molIds [OF that] by auto
  have old: "\<not> linkedTo x (filter (\<lambda>b. sourceAtomId b \<notin> atom_id ` set (getConnectedHydrogens (atom_id atom) M)
               \<and> targetAtomId b \<notin> atom_id ` set (getConnectedHydrogens (atom_id atom) M)) (bonds M))
        (u (g + 2 * j))"
    unfolding linkedTo_filter using nb by auto
  have na: "atom_id atom \<noteq> u (g + 2 * j)"
    using fresh_not_in [OF f, of "g + 2 * j"] atom_id_in_molIds [OF a] by auto
  have new: "linkedTo x (map (hBondAt u g atom) [0..<k]) (u (g + 2 * j)) \<longleftrightarrow> x = atom_id atom"
    unfolding linkedTo_new_bonds using ne na j by auto
  show ?thesis
    unfolding bonds_rebuilt linkedTo_append using new old by simp
qed

lemma connected_after_rebuild:
  assumes r: "stepReady u g atom M"
    and x: "x \<notin> atom_id ` set (getConnectedHydrogens (atom_id atom) M)"
  shows "getConnectedHydrogens x (rebuilt u g atom step k M) =
     filter (\<lambda>h. atom_id h \<notin> atom_id ` set (getConnectedHydrogens (atom_id atom) M))
        (getConnectedHydrogens x M)
     @ (if x = atom_id atom then map (hAtomAt u g atom step) [0..<k] else [])"
proof -
  from r have d: "distinct (map atom_id (atoms M))" by (simp add: stepReady_def)
  have d': "distinct (map atom_id (atoms (rebuilt u g atom step k M)))"
    using r by (rule distinct_rebuilt)
  have old: "filter (\<lambda>h. linkedTo x (bonds (rebuilt u g atom step k M)) (atom_id h) \<and> element h = ''H'')
        (filter (\<lambda>h. atom_id h \<notin> atom_id ` set (getConnectedHydrogens (atom_id atom) M)) (atoms M))
      = filter (\<lambda>h. atom_id h \<notin> atom_id ` set (getConnectedHydrogens (atom_id atom) M))
        (filter (\<lambda>h. linkedTo x (bonds M) (atom_id h) \<and> element h = ''H'') (atoms M))"
  proof -
    have pt: "(atom_id h \<notin> atom_id ` set (getConnectedHydrogens (atom_id atom) M)
          \<and> linkedTo x (bonds (rebuilt u g atom step k M)) (atom_id h) \<and> element h = ''H'')
        = ((linkedTo x (bonds M) (atom_id h) \<and> element h = ''H'')
          \<and> atom_id h \<notin> atom_id ` set (getConnectedHydrogens (atom_id atom) M))"
      if h: "h \<in> set (atoms M)" for h
    proof (cases "element h = ''H'' \<and> atom_id h \<notin> atom_id ` set (getConnectedHydrogens (atom_id atom) M)")
      case True
      then have "linkedTo x (bonds (rebuilt u g atom step k M)) (atom_id h)
          \<longleftrightarrow> linkedTo x (bonds M) (atom_id h)"
        using linked_old_hydrogen [OF r h _ _ x] by blast
      with True show ?thesis by blast
    next
      case False
      then show ?thesis by blast
    qed
    show ?thesis
      unfolding filter_filter using pt by (rule filter_cong [OF refl])
  qed
  have newP: "linkedTo x (bonds (rebuilt u g atom step k M)) (atom_id h) \<longleftrightarrow> x = atom_id atom"
    if "h \<in> set (map (hAtomAt u g atom step) [0..<k])" for h
  proof -
    from that obtain j where j: "j < k" "h = hAtomAt u g atom step j" by auto
    show ?thesis
      unfolding j(2) hAtomAt_simps by (rule linked_new_hydrogen [OF r j(1)])
  qed
  have newH: "element h = ''H''" if "h \<in> set (map (hAtomAt u g atom step) [0..<k])" for h
    using that by (auto simp add: hAtomAt_simps)
  have new: "filter (\<lambda>h. linkedTo x (bonds (rebuilt u g atom step k M)) (atom_id h) \<and> element h = ''H'')
        (map (hAtomAt u g atom step) [0..<k])
      = (if x = atom_id atom then map (hAtomAt u g atom step) [0..<k] else [])"
  proof (cases "x = atom_id atom")
    case True
    have "filter (\<lambda>h. linkedTo x (bonds (rebuilt u g atom step k M)) (atom_id h) \<and> element h = ''H'')
        (map (hAtomAt u g atom step) [0..<k]) = map (hAtomAt u g atom step) [0..<k]"
      unfolding filter_id_conv using True newP newH by blast
    with True show ?thesis by simp
  next
    case False
    have "filter (\<lambda>h. linkedTo x (bonds (rebuilt u g atom step k M)) (atom_id h) \<and> element h = ''H'')
        (map (hAtomAt u g atom step) [0..<k]) = []"
      unfolding filter_empty_conv using False newP by blast
    with False show ?thesis by simp
  qed
  have "getConnectedHydrogens x (rebuilt u g atom step k M) =
      filter (\<lambda>h. linkedTo x (bonds (rebuilt u g atom step k M)) (atom_id h) \<and> element h = ''H'')
        (atoms (rebuilt u g atom step k M))"
    by (rule getConnectedHydrogens_distinct [OF d'])
  also have "\<dots> =
      filter (\<lambda>h. linkedTo x (bonds (rebuilt u g atom step k M)) (atom_id h) \<and> element h = ''H'')
        (filter (\<lambda>h. atom_id h \<notin> atom_id ` set (getConnectedHydrogens (atom_id atom) M)) (atoms M))
      @ filter (\<lambda>h. linkedTo x (bonds (rebuilt u g atom step k M)) (atom_id h) \<and> element h = ''H'')
        (map (hAtomAt u g atom step) [0..<k])"
    by (simp only: atoms_rebuilt filter_append)
  also have "\<dots> =
      filter (\<lambda>h. atom_id h \<notin> atom_id ` set (getConnectedHydrogens (atom_id atom) M))
        (filter (\<lambda>h. linkedTo x (bonds M) (atom_id h) \<and> element h = ''H'') (atoms M))
      @ (if x = atom_id atom then map (hAtomAt u g atom step) [0..<k] else [])"
    by (simp only: old new)
  also have "filter (\<lambda>h. linkedTo x (bonds M) (atom_id h) \<and> element h = ''H'') (atoms M)
      = getConnectedHydrogens x M"
    by (rule getConnectedHydrogens_distinct [OF d, symmetric])
  finally show ?thesis .
qed

lemma connected_own_after_rebuild:
  assumes r: "stepReady u g atom M"
  shows "getConnectedHydrogens (atom_id atom) (rebuilt u g atom step k M) =
     map (hAtomAt u g atom step) [0..<k]"
proof -
  from r have d: "distinct (map atom_id (atoms M))"
    and a: "atom \<in> set (atoms M)" "element atom \<noteq> ''H''"
    by (simp_all add: stepReady_def)
  have x: "atom_id atom \<notin> atom_id ` set (getConnectedHydrogens (atom_id atom) M)"
    using d a by (rule heavy_not_connected)
  have "filter (\<lambda>h. atom_id h \<notin> atom_id ` set (getConnectedHydrogens (atom_id atom) M))
        (getConnectedHydrogens (atom_id atom) M) = []"
    unfolding filter_empty_conv by simp
  then show ?thesis
    unfolding connected_after_rebuild [OF r x] by simp
qed

section \<open>Settled atoms\<close>

lemma getRequiredHydrogens_cong:
  "getAtomBondCount (atom_id atom) bs = getAtomBondCount (atom_id atom) bs'
   \<Longrightarrow> getRequiredHydrogens vt atom bs = getRequiredHydrogens vt atom bs'"
  by (simp add: getRequiredHydrogens_cases split: option.splits)

lemma count_cong:
  "filter (touches a) bs = filter (touches a) bs' \<Longrightarrow> getAtomBondCount a bs = getAtomBondCount a bs'"
  by (simp add: getAtomBondCount_sum)

lemma need_nonneg: "0 \<le> need vt atom M"
  by (simp add: need_def getRequiredHydrogens_nonneg)

lemma linked_ends:
  assumes "linkedTo x bs c"
  shows "\<exists>b \<in> set bs. touches x b \<and> touches c b \<and> (\<forall>y. touches y b \<longrightarrow> y = x \<or> y = c)"
proof -
  from assms obtain b where b: "b \<in> set bs"
      "(sourceAtomId b = x \<and> targetAtomId b = c)
       \<or> (sourceAtomId b \<noteq> x \<and> targetAtomId b = x \<and> sourceAtomId b = c)"
    unfolding linkedTo_iff by blast
  have 1: "touches x b" "touches c b" using b(2) by (auto simp add: touches_def)
  have 2: "y = x \<or> y = c" if "touches y b" for y
    using that b(2) by (auto simp add: touches_def)
  from b(1) 1 2 show ?thesis by blast
qed

lemma connected_linked:
  assumes "distinct (map atom_id (atoms M))"
  shows "h \<in> set (getConnectedHydrogens x M) \<longleftrightarrow>
     h \<in> set (atoms M) \<and> element h = ''H'' \<and> linkedTo x (bonds M) (atom_id h)"
  unfolding getConnectedHydrogens_distinct [OF assms] by auto

lemma connected_id_iff:
  assumes "distinct (map atom_id (atoms M))" and "h \<in> set (atoms M)"
  shows "atom_id h \<in> atom_id ` set (getConnectedHydrogens x M) \<longleftrightarrow>
     h \<in> set (getConnectedHydrogens x M)"
  using assms(1) connected_subset assms(2) by (rule id_mem_iff)

text \<open>A hydrogen of a settled atom is connected to no other non-hydrogen atom.\<close>

lemma exclusive_disjoint:
  assumes d: "distinct (map atom_id (atoms M))"
    and p: "exclusive s M"
    and s: "atomS \<in> set (atoms M)" "element atomS \<noteq> ''H''" "atom_id atomS = s"
    and ne: "x \<noteq> s"
    and h: "h \<in> set (getConnectedHydrogens s M)"
  shows "h \<notin> set (getConnectedHydrogens x M)"
proof
  assume "h \<in> set (getConnectedHydrogens x M)"
  then have "linkedTo x (bonds M) (atom_id h)"
    using connected_linked [OF d] by blast
  then obtain b where b: "b \<in> set (bonds M)" "touches (atom_id h) b"
      "\<And>y. touches y b \<Longrightarrow> y = x \<or> y = atom_id h"
    using linked_ends [of x "bonds M" "atom_id h"] by blast
  from p h b(1,2) have "touches s b"
    unfolding exclusive_def by blast
  with b(3) ne have "s = atom_id h" by blast
  then have "atom_id atomS \<in> atom_id ` set (getConnectedHydrogens s M)"
    using h s(3) by auto
  with heavy_not_connected [OF d s(1,2)] show False by blast
qed

lemma settled_count_stable:
  assumes r: "stepReady u g atom M"
    and st: "settled vt atom M"
    and x: "x \<notin> atom_id ` set (getConnectedHydrogens (atom_id atom) M)"
  shows "length (getConnectedHydrogens x (rebuilt u g atom step (nat (need vt atom M)) M))
     = length (getConnectedHydrogens x M)"
proof (cases "x = atom_id atom")
  case True
  have "length (getConnectedHydrogens x (rebuilt u g atom step (nat (need vt atom M)) M))
      = nat (need vt atom M)"
    unfolding True connected_own_after_rebuild [OF r] by simp
  also have "\<dots> = length (getConnectedHydrogens (atom_id atom) M)"
    using st unfolding settled_def by linarith
  finally show ?thesis using True by simp
next
  case False
  from r have d: "distinct (map atom_id (atoms M))"
    and a: "atom \<in> set (atoms M)" "element atom \<noteq> ''H''"
    by (simp_all add: stepReady_def)
  from st have p: "exclusive (atom_id atom) M" by (simp add: settled_def)
  have keep: "atom_id h \<notin> atom_id ` set (getConnectedHydrogens (atom_id atom) M)"
    if h: "h \<in> set (getConnectedHydrogens x M)" for h
  proof
    assume "atom_id h \<in> atom_id ` set (getConnectedHydrogens (atom_id atom) M)"
    moreover have "h \<in> set (atoms M)" using h connected_subset by blast
    ultimately have "h \<in> set (getConnectedHydrogens (atom_id atom) M)"
      using connected_id_iff [OF d] by blast
    from exclusive_disjoint [OF d p a refl False this] h show False by blast
  qed
  have "filter (\<lambda>h. atom_id h \<notin> atom_id ` set (getConnectedHydrogens (atom_id atom) M))
        (getConnectedHydrogens x M) = getConnectedHydrogens x M"
    unfolding filter_id_conv using keep by blast
  then show ?thesis
    unfolding connected_after_rebuild [OF r x] using False by simp
qed

section \<open>A round settles its atom and keeps the others settled\<close>

lemma fresh_no_bond_end:
  assumes "freshFrom u g M" and "g \<le> i" and "b \<in> set (bonds M)"
  shows "\<not> touches (u i) b"
  using fresh_not_in [OF assms(1,2)] bond_ends_in_molIds [OF assms(3)]
  by (auto simp add: touches_def)

lemma fresh_no_atom:
  assumes "freshFrom u g M" and "g \<le> i" and "h \<in> set (atoms M)"
  shows "atom_id h \<noteq> u i"
  using fresh_not_in [OF assms(1,2)] atom_id_in_molIds [OF assms(3)] by auto

lemma heavy_stays:
  assumes r: "stepReady u g atom M" and s: "atomS \<in> set (atoms M)" "element atomS \<noteq> ''H''"
  shows "atomS \<in> set (atoms (rebuilt u g atom step k M))"
proof -
  from r have d: "distinct (map atom_id (atoms M))" by (simp add: stepReady_def)
  from heavy_not_connected [OF d s] s(1) show ?thesis
    unfolding atoms_rebuilt by simp
qed

lemma heavy_was:
  assumes "atomS \<in> set (atoms (rebuilt u g atom step k M))" and "element atomS \<noteq> ''H''"
  shows "atomS \<in> set (atoms M)"
  using assms unfolding atoms_rebuilt by (auto simp add: hAtomAt_simps)

lemma stepReady_other:
  assumes r: "stepReady u g atom M" and s: "atomS \<in> set (atoms M)" "element atomS \<noteq> ''H''"
  shows "stepReady u (g + 2 * k) atomS (rebuilt u g atom step k M)"
  unfolding stepReady_def
  using heavy_stays [OF r s] s(2) distinct_rebuilt [OF r] fresh_rebuilt [OF r] by blast

lemma bonds_strip_rebuilt_own:
  assumes r: "stepReady u g atom M"
  shows "bonds (stripHydrogens (atom_id atom) (rebuilt u g atom step k M))
     = bonds (stripHydrogens (atom_id atom) M)"
proof -
  from r have f: "freshFrom u g M" by (simp add: stepReady_def)
  let ?new = "atom_id ` set (map (hAtomAt u g atom step) [0..<k])"
  let ?Q = "\<lambda>b. sourceAtomId b \<notin> atom_id ` set (getConnectedHydrogens (atom_id atom) M)
               \<and> targetAtomId b \<notin> atom_id ` set (getConnectedHydrogens (atom_id atom) M)"
  have new: "?new = (\<lambda>j. u (g + 2 * j)) ` {0..<k}"
    by (simp add: image_image hAtomAt_simps)
  have old: "sourceAtomId b \<notin> ?new \<and> targetAtomId b \<notin> ?new" if "b \<in> set (bonds M)" for b
  proof -
    have "sourceAtomId b \<noteq> u (g + 2 * j) \<and> targetAtomId b \<noteq> u (g + 2 * j)" for j
      using fresh_no_bond_end [OF f _ that, of "g + 2 * j"] by (auto simp add: touches_def)
    then show ?thesis unfolding new by blast
  qed
  have 1: "filter (\<lambda>b. sourceAtomId b \<notin> ?new \<and> targetAtomId b \<notin> ?new) (filter ?Q (bonds M))
      = filter ?Q (bonds M)"
    unfolding filter_id_conv using old by auto
  have 2: "filter (\<lambda>b. sourceAtomId b \<notin> ?new \<and> targetAtomId b \<notin> ?new)
      (map (hBondAt u g atom) [0..<k]) = []"
    unfolding filter_empty_conv new by (auto simp add: hBondAt_simps)
  show ?thesis
    unfolding bonds_stripHydrogens [of "atom_id atom" "rebuilt u g atom step k M"]
      connected_own_after_rebuild [OF r] bonds_rebuilt filter_append 1 2
    by (simp add: bonds_stripHydrogens)
qed

lemma settled_established:
  assumes r: "stepReady u g atom M"
  shows "settled vt atom (rebuilt u g atom step (nat (need vt atom M)) M)"
proof -
  let ?k = "nat (need vt atom M)"
  let ?M' = "rebuilt u g atom step ?k M"
  from r have f: "freshFrom u g M" by (simp add: stepReady_def)
  have excl: "exclusive (atom_id atom) ?M'"
    unfolding exclusive_def connected_own_after_rebuild [OF r]
  proof (intro ballI impI)
    fix h b
    assume h: "h \<in> set (map (hAtomAt u g atom step) [0..<?k])"
      and b: "b \<in> set (bonds ?M')" and t: "touches (atom_id h) b"
    from h obtain j where j: "atom_id h = u (g + 2 * j)"
      by (auto simp add: hAtomAt_simps)
    from b have "b \<in> set (bonds M) \<or> b \<in> set (map (hBondAt u g atom) [0..<?k])"
      unfolding bonds_rebuilt by auto
    then show "touches (atom_id atom) b"
    proof
      assume "b \<in> set (bonds M)"
      with fresh_no_bond_end [OF f, of "g + 2 * j" b] t j show ?thesis by simp
    next
      assume "b \<in> set (map (hBondAt u g atom) [0..<?k])"
      then show ?thesis by (auto simp add: touches_def hBondAt_simps)
    qed
  qed
  have "need vt atom ?M' = need vt atom M"
    unfolding need_def bonds_strip_rebuilt_own [OF r] ..
  then have cnt: "int (length (getConnectedHydrogens (atom_id atom) ?M')) = need vt atom ?M'"
    unfolding connected_own_after_rebuild [OF r] using need_nonneg [of vt atom M] by simp
  from excl cnt show ?thesis by (simp add: settled_def)
qed

lemma settled_preserved:
  assumes r: "stepReady u g atomT M"
    and s: "atomS \<in> set (atoms M)" "element atomS \<noteq> ''H''"
    and ne: "atom_id atomS \<noteq> atom_id atomT"
    and st: "settled vt atomS M"
  shows "settled vt atomS (rebuilt u g atomT step k M)"
proof -
  let ?M' = "rebuilt u g atomT step k M"
  let ?s = "atom_id atomS"
  let ?t = "atom_id atomT"
  let ?Hs = "atom_id ` set (getConnectedHydrogens ?s M)"
  let ?Ht = "atom_id ` set (getConnectedHydrogens ?t M)"
  from r have d: "distinct (map atom_id (atoms M))" and f: "freshFrom u g M"
    and t: "atomT \<in> set (atoms M)" "element atomT \<noteq> ''H''"
    by (simp_all add: stepReady_def)
  from st have p: "exclusive ?s M"
    and c: "int (length (getConnectedHydrogens ?s M)) = need vt atomS M"
    by (simp_all add: settled_def)
  have sHt: "?s \<notin> ?Ht" using d s by (rule heavy_not_connected)
  have sHs: "?s \<notin> ?Hs" using d s by (rule heavy_not_connected)
  have disj: "atom_id h \<notin> ?Ht" if h: "h \<in> set (getConnectedHydrogens ?s M)" for h
  proof
    assume "atom_id h \<in> ?Ht"
    moreover have "h \<in> set (atoms M)" using h connected_subset by blast
    ultimately have "h \<in> set (getConnectedHydrogens ?t M)"
      using connected_id_iff [OF d] by blast
    moreover have "?t \<noteq> ?s" using ne by simp
    ultimately show False
      using exclusive_disjoint [OF d p s refl _ h] by blast
  qed
  have same: "getConnectedHydrogens ?s ?M' = getConnectedHydrogens ?s M"
  proof -
    have "filter (\<lambda>h. atom_id h \<notin> ?Ht) (getConnectedHydrogens ?s M) = getConnectedHydrogens ?s M"
      unfolding filter_id_conv using disj by blast
    then show ?thesis
      unfolding connected_after_rebuild [OF r sHt] using ne by simp
  qed
  have excl: "exclusive ?s ?M'"
    unfolding exclusive_def same
  proof (intro ballI impI)
    fix h b
    assume h: "h \<in> set (getConnectedHydrogens ?s M)"
      and b: "b \<in> set (bonds ?M')" and tb: "touches (atom_id h) b"
    have hM: "h \<in> set (atoms M)" using h connected_subset by blast
    have hH: "element h = ''H''" using connected_are_hydrogens [OF d h] .
    from b have "b \<in> set (bonds M) \<or> b \<in> set (map (hBondAt u g atomT) [0..<k])"
      unfolding bonds_rebuilt by auto
    then show "touches ?s b"
    proof
      assume "b \<in> set (bonds M)"
      with p h tb show ?thesis unfolding exclusive_def by blast
    next
      assume "b \<in> set (map (hBondAt u g atomT) [0..<k])"
      then obtain j where j: "sourceAtomId b = ?t" "targetAtomId b = u (g + 2 * j)"
        by (auto simp add: hBondAt_simps)
      from tb j have "atom_id h = ?t \<or> atom_id h = u (g + 2 * j)"
        by (auto simp add: touches_def)
      then show ?thesis
      proof
        assume "atom_id h = ?t"
        then have "h = atomT"
          using d hM t(1) by (auto simp add: distinct_map dest: inj_onD)
        with hH t(2) show ?thesis by simp
      next
        assume "atom_id h = u (g + 2 * j)"
        with fresh_no_atom [OF f _ hM, of "g + 2 * j"] show ?thesis by simp
      qed
    qed
  qed
  have tb: "filter (touches ?s) (bonds (stripHydrogens ?s ?M'))
      = filter (touches ?s) (bonds (stripHydrogens ?s M))"
  proof -
    let ?Qs = "\<lambda>b. sourceAtomId b \<notin> ?Hs \<and> targetAtomId b \<notin> ?Hs"
    let ?Qt = "\<lambda>b. sourceAtomId b \<notin> ?Ht \<and> targetAtomId b \<notin> ?Ht"
    have new: "filter (\<lambda>b. ?Qs b \<and> touches ?s b) (map (hBondAt u g atomT) [0..<k]) = []"
      unfolding filter_empty_conv
    proof (intro ballI)
      fix b
      assume "b \<in> set (map (hBondAt u g atomT) [0..<k])"
      then obtain j where j: "sourceAtomId b = ?t" "targetAtomId b = u (g + 2 * j)"
        by (auto simp add: hBondAt_simps)
      have "?s \<noteq> u (g + 2 * j)"
        using fresh_no_atom [OF f _ s(1), of "g + 2 * j"] by simp
      with j ne show "\<not> (?Qs b \<and> touches ?s b)"
        by (auto simp add: touches_def)
    qed
    have pt: "(?Qt b \<and> ?Qs b \<and> touches ?s b) = (?Qs b \<and> touches ?s b)"
      if b: "b \<in> set (bonds M)" for b
    proof (cases "?Qs b \<and> touches ?s b")
      case False
      then show ?thesis by blast
    next
      case True
      have "e \<notin> ?Ht" if e: "touches e b" for e
      proof
        assume eHt: "e \<in> ?Ht"
        then obtain h where h: "h \<in> set (getConnectedHydrogens ?t M)" "atom_id h = e" by auto
        have hM: "h \<in> set (atoms M)" using h(1) connected_subset by blast
        have hH: "element h = ''H''" using connected_are_hydrogens [OF d h(1)] .
        have ene: "e \<noteq> []"
          using h connected_linked [OF d, of h ?t] by (auto simp add: linkedTo_iff)
        have "?s \<noteq> e" using sHt eHt by blast
        then have "linkedTo ?s (bonds M) e"
          using touches_linkedTo [OF b _ e _ ene, of ?s] True by blast
        then have "h \<in> set (getConnectedHydrogens ?s M)"
          using connected_linked [OF d, of h ?s] hM hH h(2) by blast
        then have "e \<in> ?Hs" using h(2) by auto
        with True e show False by (auto simp add: touches_def)
      qed
      then have "?Qt b" by (auto simp add: touches_def)
      with True show ?thesis by blast
    qed
    have old: "filter (\<lambda>b. ?Qs b \<and> touches ?s b) (filter ?Qt (bonds M))
        = filter (\<lambda>b. ?Qs b \<and> touches ?s b) (bonds M)"
      unfolding filter_filter using pt by (rule filter_cong [OF refl])
    have "filter (touches ?s) (bonds (stripHydrogens ?s ?M'))
        = filter (\<lambda>b. ?Qs b \<and> touches ?s b) (bonds ?M')"
      unfolding bonds_stripHydrogens [of ?s ?M'] same filter_filter ..
    also have "\<dots> = filter (\<lambda>b. ?Qs b \<and> touches ?s b) (bonds M)"
      unfolding bonds_rebuilt filter_append old new by simp
    also have "\<dots> = filter (touches ?s) (bonds (stripHydrogens ?s M))"
      unfolding bonds_stripHydrogens [of ?s M] filter_filter ..
    finally show ?thesis .
  qed
  have "need vt atomS ?M' = need vt atomS M"
    unfolding need_def by (rule getRequiredHydrogens_cong, rule count_cong, rule tb)
  with c have cnt: "int (length (getConnectedHydrogens ?s ?M')) = need vt atomS ?M'"
    unfolding same by simp
  from excl cnt show ?thesis by (simp add: settled_def)
qed

section \<open>Bond type changed: reconciling twice\<close>

lemma heavyAt_unique:
  assumes "distinct (map atom_id (atoms M))" and "heavyAt y M a" and "heavyAt y M b"
  shows "a = b"
  using assms by (auto simp add: heavyAt_def distinct_map dest: inj_onD)

lemma active_heavyAt:
  assumes "distinct (map atom_id (atoms M))"
  shows "active y M \<longleftrightarrow> (\<exists>atom. heavyAt y M atom)"
  unfolding active_iff [OF assms] heavyAt_def by blast

lemma step_cases:
  assumes wf: "wellFormed u g M"
  shows "(\<not> (\<exists>atom. heavyAt x M atom) \<and> bondTypeChangeStep vt u (M, g) x = (M, g))
     \<or> (\<exists>atom. heavyAt x M atom \<and> stepReady u g atom M
            \<and> bondTypeChangeStep vt u (M, g) x =
                (rebuilt u g atom (simpleStep (need vt atom M)) (nat (need vt atom M)) M,
                 g + 2 * nat (need vt atom M)))"
proof (cases "active x M")
  case False
  from wf have d: "distinct (map atom_id (atoms M))" by (simp add: wellFormed_def)
  from False step_inactive [OF False] show ?thesis
    unfolding active_heavyAt [OF d] by blast
next
  case True
  from wf have d: "distinct (map atom_id (atoms M))" and f: "freshFrom u g M"
    by (simp_all add: wellFormed_def)
  from True obtain atom where fa: "find (\<lambda>a. atom_id a = x) (atoms M) = Some atom"
    and el: "element atom \<noteq> ''H''"
    by (auto simp add: active_def split: option.splits)
  from find_Some_id [OF fa] have am: "atom \<in> set (atoms M)" and ax: "atom_id atom = x"
    by simp_all
  have h: "heavyAt x M atom" using am ax el by (simp add: heavyAt_def)
  have r: "stepReady u g atom M" using am el d f by (simp add: stepReady_def)
  have "bondTypeChangeStep vt u (M, g) x =
      (rebuilt u g atom (simpleStep (need vt atom M)) (nat (need vt atom M)) M,
       g + 2 * nat (need vt atom M))"
    unfolding step_active [OF fa el] rebuilt_def need_def ax ..
  with h r show ?thesis by blast
qed

lemma step_wellFormed:
  assumes wf: "wellFormed u g M"
  shows "wellFormed u (snd (bondTypeChangeStep vt u (M, g) x)) (fst (bondTypeChangeStep vt u (M, g) x))"
  using step_cases [OF wf, of x vt]
proof (elim disjE conjE exE)
  assume "bondTypeChangeStep vt u (M, g) x = (M, g)"
  with wf show ?thesis by simp
next
  fix atom
  assume r: "stepReady u g atom M"
    and e: "bondTypeChangeStep vt u (M, g) x =
      (rebuilt u g atom (simpleStep (need vt atom M)) (nat (need vt atom M)) M,
       g + 2 * nat (need vt atom M))"
  show ?thesis
    unfolding e wellFormed_def using distinct_rebuilt [OF r] fresh_rebuilt [OF r] by simp
qed

lemma step_heavyAt:
  assumes wf: "wellFormed u g M"
  shows "heavyAt y (fst (bondTypeChangeStep vt u (M, g) x)) a \<longleftrightarrow> heavyAt y M a"
  using step_cases [OF wf, of x vt]
proof (elim disjE conjE exE)
  assume "bondTypeChangeStep vt u (M, g) x = (M, g)"
  then show ?thesis by simp
next
  fix atom
  assume r: "stepReady u g atom M"
    and e: "bondTypeChangeStep vt u (M, g) x =
      (rebuilt u g atom (simpleStep (need vt atom M)) (nat (need vt atom M)) M,
       g + 2 * nat (need vt atom M))"
  show ?thesis
    unfolding e heavyAt_def using heavy_stays [OF r] heavy_was by auto
qed

lemma step_good_own:
  assumes wf: "wellFormed u g M"
  shows "good vt x (fst (bondTypeChangeStep vt u (M, g) x))"
  using step_cases [OF wf, of x vt]
proof (elim disjE conjE exE)
  assume "\<not> (\<exists>atom. heavyAt x M atom)" "bondTypeChangeStep vt u (M, g) x = (M, g)"
  then show ?thesis by (simp add: good_def)
next
  fix atom
  assume h: "heavyAt x M atom" and r: "stepReady u g atom M"
    and e: "bondTypeChangeStep vt u (M, g) x =
      (rebuilt u g atom (simpleStep (need vt atom M)) (nat (need vt atom M)) M,
       g + 2 * nat (need vt atom M))"
  from wf have d: "distinct (map atom_id (atoms M))" by (simp add: wellFormed_def)
  show ?thesis
    unfolding good_def
  proof (intro allI impI)
    fix a
    assume "heavyAt x (fst (bondTypeChangeStep vt u (M, g) x)) a"
    then have "heavyAt x M a" using step_heavyAt [OF wf] by blast
    then have "a = atom" using heavyAt_unique [OF d _ h] by blast
    then show "settled vt a (fst (bondTypeChangeStep vt u (M, g) x))"
      unfolding e using settled_established [OF r] by simp
  qed
qed

lemma step_good_other:
  assumes wf: "wellFormed u g M" and gd: "good vt y M" and ne: "y \<noteq> x"
  shows "good vt y (fst (bondTypeChangeStep vt u (M, g) x))"
  using step_cases [OF wf, of x vt]
proof (elim disjE conjE exE)
  assume "bondTypeChangeStep vt u (M, g) x = (M, g)"
  with gd show ?thesis by simp
next
  fix atom
  assume h: "heavyAt x M atom" and r: "stepReady u g atom M"
    and e: "bondTypeChangeStep vt u (M, g) x =
      (rebuilt u g atom (simpleStep (need vt atom M)) (nat (need vt atom M)) M,
       g + 2 * nat (need vt atom M))"
  show ?thesis
    unfolding good_def
  proof (intro allI impI)
    fix a
    assume "heavyAt y (fst (bondTypeChangeStep vt u (M, g) x)) a"
    then have a: "heavyAt y M a" using step_heavyAt [OF wf] by blast
    then have st: "settled vt a M" using gd by (simp add: good_def)
    from a h ne have "atom_id a \<noteq> atom_id atom" by (simp add: heavyAt_def)
    with a st show "settled vt a (fst (bondTypeChangeStep vt u (M, g) x))"
      unfolding e using settled_preserved [OF r _ _ _ st] by (simp add: heavyAt_def)
  qed
qed

lemma step_count_stable:
  assumes wf: "wellFormed u g M" and gd: "good vt x M" and a: "heavyAt y M a"
  shows "length (getConnectedHydrogens y (fst (bondTypeChangeStep vt u (M, g) x)))
     = length (getConnectedHydrogens y M)"
  using step_cases [OF wf, of x vt]
proof (elim disjE conjE exE)
  assume "bondTypeChangeStep vt u (M, g) x = (M, g)"
  then show ?thesis by simp
next
  fix atom
  assume h: "heavyAt x M atom" and r: "stepReady u g atom M"
    and e: "bondTypeChangeStep vt u (M, g) x =
      (rebuilt u g atom (simpleStep (need vt atom M)) (nat (need vt atom M)) M,
       g + 2 * nat (need vt atom M))"
  from wf have d: "distinct (map atom_id (atoms M))" by (simp add: wellFormed_def)
  from gd h have st: "settled vt atom M" by (simp add: good_def)
  from a have "y \<notin> atom_id ` set (getConnectedHydrogens (atom_id atom) M)"
    using heavy_not_connected [OF d, of a "atom_id atom"] by (simp add: heavyAt_def)
  from settled_count_stable [OF r st this] show ?thesis
    unfolding e by simp
qed

lemma update_as_steps:
  "updateHydrogensAfterBondTypeChange vt u g s t M =
     bondTypeChangeStep vt u (bondTypeChangeStep vt u (M, g) s) t"
  by (simp add: updateHydrogensAfterBondTypeChange_def)

lemma update_wellFormed:
  assumes "wellFormed u g M"
  shows "wellFormed u (snd (updateHydrogensAfterBondTypeChange vt u g s t M))
     (fst (updateHydrogensAfterBondTypeChange vt u g s t M))"
proof -
  obtain M1 g1 where 1: "bondTypeChangeStep vt u (M, g) s = (M1, g1)" by (cases "bondTypeChangeStep vt u (M, g) s")
  have "wellFormed u g1 M1" using step_wellFormed [OF assms, of vt s] 1 by simp
  from step_wellFormed [OF this, of vt t] show ?thesis
    unfolding update_as_steps 1 .
qed

lemma update_heavyAt:
  assumes "wellFormed u g M"
  shows "heavyAt y (fst (updateHydrogensAfterBondTypeChange vt u g s t M)) a \<longleftrightarrow> heavyAt y M a"
proof -
  obtain M1 g1 where 1: "bondTypeChangeStep vt u (M, g) s = (M1, g1)" by (cases "bondTypeChangeStep vt u (M, g) s")
  have wf1: "wellFormed u g1 M1" using step_wellFormed [OF assms, of vt s] 1 by simp
  have "heavyAt y M1 a \<longleftrightarrow> heavyAt y M a" using step_heavyAt [OF assms, of y vt s a] 1 by simp
  with step_heavyAt [OF wf1, of y vt t a] show ?thesis
    unfolding update_as_steps 1 by simp
qed

lemma update_good:
  assumes "wellFormed u g M"
  shows "good vt s (fst (updateHydrogensAfterBondTypeChange vt u g s t M))"
    and "good vt t (fst (updateHydrogensAfterBondTypeChange vt u g s t M))"
proof -
  obtain M1 g1 where 1: "bondTypeChangeStep vt u (M, g) s = (M1, g1)" by (cases "bondTypeChangeStep vt u (M, g) s")
  have wf1: "wellFormed u g1 M1" using step_wellFormed [OF assms, of vt s] 1 by simp
  have g1: "good vt s M1" using step_good_own [OF assms, of vt s] 1 by simp
  show "good vt t (fst (updateHydrogensAfterBondTypeChange vt u g s t M))"
    unfolding update_as_steps 1 by (rule step_good_own [OF wf1])
  show "good vt s (fst (updateHydrogensAfterBondTypeChange vt u g s t M))"
  proof (cases "s = t")
    case True
    show ?thesis
      using step_good_own [OF wf1, of vt t] True unfolding update_as_steps 1 by simp
  next
    case False
    show ?thesis unfolding update_as_steps 1 by (rule step_good_other [OF wf1 g1 False])
  qed
qed

lemma update_count_stable:
  assumes wf: "wellFormed u g M" and gs: "good vt s M" and gt: "good vt t M" and a: "heavyAt y M a"
  shows "length (getConnectedHydrogens y (fst (updateHydrogensAfterBondTypeChange vt u g s t M)))
     = length (getConnectedHydrogens y M)"
proof -
  obtain M1 g1 where 1: "bondTypeChangeStep vt u (M, g) s = (M1, g1)" by (cases "bondTypeChangeStep vt u (M, g) s")
  have wf1: "wellFormed u g1 M1" using step_wellFormed [OF wf, of vt s] 1 by simp
  have c1: "length (getConnectedHydrogens y M1) = length (getConnectedHydrogens y M)"
    using step_count_stable [OF wf gs a] 1 by simp
  have a1: "heavyAt y M1 a" using step_heavyAt [OF wf, of y vt s a] 1 a by simp
  have gt1: "good vt t M1"
  proof (cases "t = s")
    case True
    show ?thesis using step_good_own [OF wf, of vt s] 1 True by simp
  next
    case False
    show ?thesis using step_good_other [OF wf gt False] 1 by simp
  qed
  have "length (getConnectedHydrogens y (fst (bondTypeChangeStep vt u (M1, g1) t)))
      = length (getConnectedHydrogens y M1)"
    by (rule step_count_stable [OF wf1 gt1 a1])
  with c1 show ?thesis unfolding update_as_steps 1 by simp
qed

text \<open>
  C4. Let the atom ids of the molecule be pairwise distinct and let the generator return
  identifiers that are new to the molecule, non-empty and never repeated. Apply
  \<open>updateHydrogensAfterBondTypeChange\<close> for s and t, and apply it again to the result (with the
  generator where the first call left it). Then every non-hydrogen atom of the second result
  is an atom of the first result and has the same number of connected hydrogens in both, as
  \<open>getConnectedHydrogens\<close> counts them.
\<close>

theorem reconcile_idempotent:
  assumes "distinct (map atom_id (atoms M))" and "freshFrom u g M"
  shows "let (M1, g1) = updateHydrogensAfterBondTypeChange vt u g s t M;
             (M2, g2) = updateHydrogensAfterBondTypeChange vt u g1 s t M1
         in \<forall>a \<in> set (atoms M2). element a \<noteq> ''H'' \<longrightarrow>
              a \<in> set (atoms M1)
              \<and> length (getConnectedHydrogens (atom_id a) M2)
                = length (getConnectedHydrogens (atom_id a) M1)"
proof -
  obtain M1 g1 where 1: "updateHydrogensAfterBondTypeChange vt u g s t M = (M1, g1)"
    by (cases "updateHydrogensAfterBondTypeChange vt u g s t M")
  obtain M2 g2 where 2: "updateHydrogensAfterBondTypeChange vt u g1 s t M1 = (M2, g2)"
    by (cases "updateHydrogensAfterBondTypeChange vt u g1 s t M1")
  have wf: "wellFormed u g M" using assms by (simp add: wellFormed_def)
  have wf1: "wellFormed u g1 M1" using update_wellFormed [OF wf, of vt s t] 1 by simp
  have gs: "good vt s M1"
    using update_good(1) [OF wf, where vt = vt and s = s and t = t] 1 by simp
  have gt: "good vt t M1"
    using update_good(2) [OF wf, where vt = vt and s = s and t = t] 1 by simp
  have "a \<in> set (atoms M1)
      \<and> length (getConnectedHydrogens (atom_id a) M2) = length (getConnectedHydrogens (atom_id a) M1)"
    if a: "a \<in> set (atoms M2)" "element a \<noteq> ''H''" for a
  proof -
    have "heavyAt (atom_id a) M2 a" using a by (simp add: heavyAt_def)
    then have h1: "heavyAt (atom_id a) M1 a"
      using update_heavyAt [OF wf1, of "atom_id a" vt s t a] 2 by simp
    from update_count_stable [OF wf1 gs gt h1] 2 h1 show ?thesis
      by (simp add: heavyAt_def)
  qed
  then show ?thesis by (simp add: 1 2)
qed

section \<open>What a round leaves alone\<close>

lemma frame_refl: "frame u g g M M"
  by (simp add: frame_def)

lemma frame_rebuilt:
  assumes r: "stepReady u g atom M"
  shows "frame u g (g + 2 * k) M (rebuilt u g atom step k M)"
proof -
  let ?M' = "rebuilt u g atom step k M"
  let ?Hid = "atom_id ` set (getConnectedHydrogens (atom_id atom) M)"
  let ?Q = "\<lambda>b. sourceAtomId b \<notin> ?Hid \<and> targetAtomId b \<notin> ?Hid"
  let ?New = "map (hAtomAt u g atom step) [0..<k]"
  let ?NewB = "map (hBondAt u g atom) [0..<k]"
  from r have d: "distinct (map atom_id (atoms M))" and f: "freshFrom u g M"
    and a: "atom \<in> set (atoms M)" "element atom \<noteq> ''H''"
    by (simp_all add: stepReady_def)
  have at: "atoms ?M' = filter (\<lambda>h. atom_id h \<notin> ?Hid) (atoms M) @ ?New"
    by (rule atoms_rebuilt)
  have bd: "bonds ?M' = filter ?Q (bonds M) @ ?NewB"
    by (rule bonds_rebuilt)
  have newH: "element h = ''H'' \<and> (\<exists>j<k. atom_id h = u (g + 2 * j)) \<and> h \<notin> set (atoms M)"
    if "h \<in> set ?New" for h
  proof -
    from that obtain j where j: "j < k" "h = hAtomAt u g atom step j" by auto
    have "h \<notin> set (atoms M)"
      using fresh_no_atom [OF f, of "g + 2 * j" h] j(2) by (auto simp add: hAtomAt_simps)
    with j show ?thesis by (auto simp add: hAtomAt_simps)
  qed
  have newB: "\<exists>j<k. b = hBondAt u g atom j \<and> hAtomAt u g atom step j \<in> set ?New"
    if "b \<in> set ?NewB" for b
    using that by auto
  have heavyKeep: "atom_id h \<notin> ?Hid" if "h \<in> set (atoms M)" "element h \<noteq> ''H''" for h
    using d that by (rule heavy_not_connected)
  have removed: "atom_id h \<in> ?Hid \<and> element h = ''H''"
    if "h \<in> set (atoms M)" "h \<notin> set (atoms ?M')" for h
  proof -
    from that have "atom_id h \<in> ?Hid" unfolding at by auto
    moreover from this heavyKeep [OF that(1)] have "element h = ''H''" by blast
    ultimately show ?thesis by blast
  qed
  have F1: "filter (\<lambda>a. element a \<noteq> ''H'') (atoms ?M') = filter (\<lambda>a. element a \<noteq> ''H'') (atoms M)"
  proof -
    have 1: "filter (\<lambda>a. element a \<noteq> ''H'') ?New = []"
      unfolding filter_empty_conv using newH by blast
    have "(atom_id h \<notin> ?Hid \<and> element h \<noteq> ''H'') = (element h \<noteq> ''H'')"
      if "h \<in> set (atoms M)" for h
      using heavyKeep [OF that] by blast
    then have 2: "filter (\<lambda>a. element a \<noteq> ''H'') (filter (\<lambda>h. atom_id h \<notin> ?Hid) (atoms M))
        = filter (\<lambda>a. element a \<noteq> ''H'') (atoms M)"
      unfolding filter_filter by (rule filter_cong [OF refl])
    show ?thesis unfolding at filter_append 1 2 by simp
  qed
  have F2: "filter (heavyBond M) (bonds ?M') = filter (heavyBond M) (bonds M)"
  proof -
    have hid: "i \<notin> ?Hid" if "heavyId M i" for i
      using that heavyKeep unfolding heavyId_def by blast
    have 1: "filter (heavyBond M) ?NewB = []"
      unfolding filter_empty_conv
    proof (intro ballI notI)
      fix b
      assume b: "b \<in> set ?NewB" and hb: "heavyBond M b"
      from b obtain j where "targetAtomId b = u (g + 2 * j)"
        by (auto simp add: hBondAt_simps)
      moreover from hb obtain h where "h \<in> set (atoms M)" "atom_id h = targetAtomId b"
        unfolding heavyBond_def heavyId_def by blast
      ultimately show False
        using fresh_no_atom [OF f, of "g + 2 * j" h] by simp
    qed
    have pt: "(?Q b \<and> heavyBond M b) = heavyBond M b" for b
      using hid [of "sourceAtomId b"] hid [of "targetAtomId b"] unfolding heavyBond_def by blast
    have 2: "filter (heavyBond M) (filter ?Q (bonds M)) = filter (heavyBond M) (bonds M)"
      unfolding filter_filter by (rule filter_cong [OF refl]) (rule pt)
    show ?thesis unfolding bd filter_append 1 2 by simp
  qed
  have F3: "\<forall>a \<in> set (atoms ?M'). a \<notin> set (atoms M) \<longrightarrow>
            element a = ''H'' \<and> (\<exists>i. g \<le> i \<and> i < g + 2 * k \<and> atom_id a = u i)"
  proof (intro ballI impI)
    fix x
    assume "x \<in> set (atoms ?M')" "x \<notin> set (atoms M)"
    then have "x \<in> set ?New" unfolding at by auto
    from newH [OF this] obtain j where "element x = ''H''" "j < k" "atom_id x = u (g + 2 * j)"
      by blast
    moreover from \<open>j < k\<close> have "g \<le> g + 2 * j \<and> g + 2 * j < g + 2 * k" by simp
    ultimately show "element x = ''H'' \<and> (\<exists>i. g \<le> i \<and> i < g + 2 * k \<and> atom_id x = u i)"
      by blast
  qed
  have F4: "\<forall>b \<in> set (bonds ?M'). b \<notin> set (bonds M) \<longrightarrow>
            (\<exists>h \<in> set (atoms ?M'). h \<notin> set (atoms M) \<and> targetAtomId b = atom_id h)"
  proof (intro ballI impI)
    fix b
    assume "b \<in> set (bonds ?M')" "b \<notin> set (bonds M)"
    then have "b \<in> set ?NewB" unfolding bd by auto
    from newB [OF this] obtain j where j: "b = hBondAt u g atom j"
        "hAtomAt u g atom step j \<in> set ?New" by blast
    have "hAtomAt u g atom step j \<in> set (atoms ?M')" using j(2) unfolding at by simp
    moreover have "hAtomAt u g atom step j \<notin> set (atoms M)" using newH [OF j(2)] by blast
    moreover have "targetAtomId b = atom_id (hAtomAt u g atom step j)"
      unfolding j(1) by (simp add: hAtomAt_simps hBondAt_simps)
    ultimately show "\<exists>h \<in> set (atoms ?M'). h \<notin> set (atoms M) \<and> targetAtomId b = atom_id h"
      by blast
  qed
  have F5: "\<forall>b \<in> set (bonds M). b \<notin> set (bonds ?M') \<longrightarrow>
            (\<exists>h \<in> set (atoms M). h \<notin> set (atoms ?M') \<and> element h = ''H''
                \<and> touches (atom_id h) b)"
  proof (intro ballI impI)
    fix b
    assume b: "b \<in> set (bonds M)" "b \<notin> set (bonds ?M')"
    then have "\<not> ?Q b" unfolding bd by auto
    then obtain h where h: "h \<in> set (getConnectedHydrogens (atom_id atom) M)"
        "touches (atom_id h) b"
      unfolding touches_def by auto
    have hM: "h \<in> set (atoms M)" using h(1) connected_subset by blast
    have hH: "element h = ''H''" using connected_are_hydrogens [OF d h(1)] .
    have "h \<notin> set ?New" using newH [of h] hM by blast
    moreover have "h \<notin> set (filter (\<lambda>h. atom_id h \<notin> ?Hid) (atoms M))" using h(1) by simp
    ultimately have "h \<notin> set (atoms ?M')" unfolding at by simp
    with hM hH h(2) show "\<exists>h \<in> set (atoms M). h \<notin> set (atoms ?M') \<and> element h = ''H''
                \<and> touches (atom_id h) b" by blast
  qed
  have F6: "\<forall>b \<in> set (bonds ?M'). \<forall>h \<in> set (atoms M). h \<notin> set (atoms ?M') \<longrightarrow>
            \<not> touches (atom_id h) b"
  proof (intro ballI impI notI)
    fix b h
    assume b: "b \<in> set (bonds ?M')" and h: "h \<in> set (atoms M)" "h \<notin> set (atoms ?M')"
      and t: "touches (atom_id h) b"
    from removed [OF h] have hid: "atom_id h \<in> ?Hid" by blast
    from b have "b \<in> set (filter ?Q (bonds M)) \<or> b \<in> set ?NewB" unfolding bd by auto
    then show False
    proof
      assume "b \<in> set (filter ?Q (bonds M))"
      with hid t show False by (auto simp add: touches_def)
    next
      assume "b \<in> set ?NewB"
      then obtain j where j: "sourceAtomId b = atom_id atom" "targetAtomId b = u (g + 2 * j)"
        by (auto simp add: hBondAt_simps)
      from t j have "atom_id h = atom_id atom \<or> atom_id h = u (g + 2 * j)"
        by (auto simp add: touches_def)
      then show False
      proof
        assume "atom_id h = atom_id atom"
        with hid heavyKeep [OF a] show False by simp
      next
        assume "atom_id h = u (g + 2 * j)"
        with fresh_no_atom [OF f, of "g + 2 * j" h] h(1) show False by simp
      qed
    qed
  qed
  show ?thesis
    unfolding frame_def using F1 F2 F3 F4 F5 F6 by simp
qed

lemma step_frame:
  assumes wf: "wellFormed u g M"
  shows "frame u g (snd (bondTypeChangeStep vt u (M, g) x)) M
     (fst (bondTypeChangeStep vt u (M, g) x))"
  using step_cases [OF wf, of x vt]
proof (elim disjE conjE exE)
  assume "bondTypeChangeStep vt u (M, g) x = (M, g)"
  then show ?thesis by (simp add: frame_refl)
next
  fix atom
  assume r: "stepReady u g atom M"
    and e: "bondTypeChangeStep vt u (M, g) x =
      (rebuilt u g atom (simpleStep (need vt atom M)) (nat (need vt atom M)) M,
       g + 2 * nat (need vt atom M))"
  show ?thesis
    unfolding e using frame_rebuilt [OF r] by simp
qed

section \<open>Bond type changed: the frame\<close>

lemma heavyId_frame:
  assumes "filter (\<lambda>a. element a \<noteq> ''H'') (atoms M') = filter (\<lambda>a. element a \<noteq> ''H'') (atoms M)"
  shows "heavyId M' = heavyId M"
proof -
  have "set (filter (\<lambda>a. element a \<noteq> ''H'') (atoms M')) = set (filter (\<lambda>a. element a \<noteq> ''H'') (atoms M))"
    using assms by simp
  then have "\<And>a. (a \<in> set (atoms M') \<and> element a \<noteq> ''H'') = (a \<in> set (atoms M) \<and> element a \<noteq> ''H'')"
    by auto
  then show ?thesis
    unfolding heavyId_def fun_eq_iff by blast
qed

lemma heavyBond_frame:
  assumes "filter (\<lambda>a. element a \<noteq> ''H'') (atoms M') = filter (\<lambda>a. element a \<noteq> ''H'') (atoms M)"
  shows "heavyBond M' = heavyBond M"
  unfolding heavyBond_def heavyId_frame [OF assms] ..

text \<open>
  C10. Under the same two conditions (pairwise distinct atom ids, a generator of new
  identifiers), \<open>updateHydrogensAfterBondTypeChange\<close> keeps the non-hydrogen atoms, and the
  bonds whose two ends are ids of non-hydrogen atoms, as the same lists in the same order.
  Every atom it removes or adds is a hydrogen; every bond it removes touches a hydrogen it
  removes, and every bond it adds has a hydrogen it adds as target.
\<close>

theorem bond_type_change_frame:
  assumes "distinct (map atom_id (atoms M))" and "freshFrom u g M"
  shows "let M' = fst (updateHydrogensAfterBondTypeChange vt u g s t M)
         in filter (\<lambda>a. element a \<noteq> ''H'') (atoms M') = filter (\<lambda>a. element a \<noteq> ''H'') (atoms M)
          \<and> filter (heavyBond M) (bonds M') = filter (heavyBond M) (bonds M)
          \<and> (\<forall>a \<in> set (atoms M). a \<notin> set (atoms M') \<longrightarrow> element a = ''H'')
          \<and> (\<forall>a \<in> set (atoms M'). a \<notin> set (atoms M) \<longrightarrow> element a = ''H'')
          \<and> (\<forall>b \<in> set (bonds M). b \<notin> set (bonds M') \<longrightarrow>
                (\<exists>h \<in> set (atoms M). h \<notin> set (atoms M') \<and> element h = ''H''
                    \<and> touches (atom_id h) b))
          \<and> (\<forall>b \<in> set (bonds M'). b \<notin> set (bonds M) \<longrightarrow>
                (\<exists>h \<in> set (atoms M'). h \<notin> set (atoms M) \<and> element h = ''H''
                    \<and> targetAtomId b = atom_id h))"
proof -
  obtain M1 g1 where 1: "bondTypeChangeStep vt u (M, g) s = (M1, g1)"
    by (cases "bondTypeChangeStep vt u (M, g) s")
  obtain M2 g2 where 2: "bondTypeChangeStep vt u (M1, g1) t = (M2, g2)"
    by (cases "bondTypeChangeStep vt u (M1, g1) t")
  have wf: "wellFormed u g M" using assms by (simp add: wellFormed_def)
  have wf1: "wellFormed u g1 M1" using step_wellFormed [OF wf, of vt s] 1 by simp
  have fr1: "frame u g g1 M M1" using step_frame [OF wf, of vt s] 1 by simp
  have fr2: "frame u g1 g2 M1 M2" using step_frame [OF wf1, of vt t] 2 by simp
  have res: "fst (updateHydrogensAfterBondTypeChange vt u g s t M) = M2"
    unfolding update_as_steps 1 2 by simp
  from fr1 have g01: "g \<le> g1"
    and A1: "filter (\<lambda>a. element a \<noteq> ''H'') (atoms M1) = filter (\<lambda>a. element a \<noteq> ''H'') (atoms M)"
    and B1: "filter (heavyBond M) (bonds M1) = filter (heavyBond M) (bonds M)"
    and N1: "\<And>a. a \<in> set (atoms M1) \<Longrightarrow> a \<notin> set (atoms M) \<Longrightarrow>
        element a = ''H'' \<and> (\<exists>i. g \<le> i \<and> i < g1 \<and> atom_id a = u i)"
    and NB1: "\<And>b. b \<in> set (bonds M1) \<Longrightarrow> b \<notin> set (bonds M) \<Longrightarrow>
        (\<exists>h \<in> set (atoms M1). h \<notin> set (atoms M) \<and> targetAtomId b = atom_id h)"
    and RB1: "\<And>b. b \<in> set (bonds M) \<Longrightarrow> b \<notin> set (bonds M1) \<Longrightarrow>
        (\<exists>h \<in> set (atoms M). h \<notin> set (atoms M1) \<and> element h = ''H'' \<and> touches (atom_id h) b)"
    unfolding frame_def by blast+
  from fr2 have g12: "g1 \<le> g2"
    and A2: "filter (\<lambda>a. element a \<noteq> ''H'') (atoms M2) = filter (\<lambda>a. element a \<noteq> ''H'') (atoms M1)"
    and B2: "filter (heavyBond M1) (bonds M2) = filter (heavyBond M1) (bonds M1)"
    and N2: "\<And>a. a \<in> set (atoms M2) \<Longrightarrow> a \<notin> set (atoms M1) \<Longrightarrow>
        element a = ''H'' \<and> (\<exists>i. g1 \<le> i \<and> i < g2 \<and> atom_id a = u i)"
    and NB2: "\<And>b. b \<in> set (bonds M2) \<Longrightarrow> b \<notin> set (bonds M1) \<Longrightarrow>
        (\<exists>h \<in> set (atoms M2). h \<notin> set (atoms M1) \<and> targetAtomId b = atom_id h)"
    and RB2: "\<And>b. b \<in> set (bonds M1) \<Longrightarrow> b \<notin> set (bonds M2) \<Longrightarrow>
        (\<exists>h \<in> set (atoms M1). h \<notin> set (atoms M2) \<and> element h = ''H'' \<and> touches (atom_id h) b)"
    and O2: "\<And>b h. b \<in> set (bonds M2) \<Longrightarrow> h \<in> set (atoms M1) \<Longrightarrow> h \<notin> set (atoms M2) \<Longrightarrow>
        \<not> touches (atom_id h) b"
    unfolding frame_def by blast+
  from assms(2) have f: "freshFrom u g M" .
  have freshAtom: "a \<notin> set (atoms M)" if "g \<le> i" "atom_id a = u i" for a i
    using fresh_no_atom [OF f that(1), of a] that(2) by blast
  have freshBond: "\<not> touches (atom_id a) b" if "g \<le> i" "atom_id a = u i" "b \<in> set (bonds M)" for a i b
    using fresh_no_bond_end [OF f that(1,3)] that(2) by simp
  have A: "filter (\<lambda>a. element a \<noteq> ''H'') (atoms M2) = filter (\<lambda>a. element a \<noteq> ''H'') (atoms M)"
    using A1 A2 by simp
  have B: "filter (heavyBond M) (bonds M2) = filter (heavyBond M) (bonds M)"
    using B1 B2 unfolding heavyBond_frame [OF A1] by simp
  have R: "element a = ''H''" if "a \<in> set (atoms M)" "a \<notin> set (atoms M2)" for a
  proof (rule ccontr)
    assume "element a \<noteq> ''H''"
    with that(1) have "a \<in> set (filter (\<lambda>a. element a \<noteq> ''H'') (atoms M))" by simp
    then have "a \<in> set (filter (\<lambda>a. element a \<noteq> ''H'') (atoms M2))" unfolding A .
    with that(2) show False by simp
  qed
  have N: "element a = ''H''" if "a \<in> set (atoms M2)" "a \<notin> set (atoms M)" for a
  proof (cases "a \<in> set (atoms M1)")
    case True
    with N1 that(2) show ?thesis by blast
  next
    case False
    with N2 that(1) show ?thesis by blast
  qed
  have RB: "\<exists>h \<in> set (atoms M). h \<notin> set (atoms M2) \<and> element h = ''H'' \<and> touches (atom_id h) b"
    if b: "b \<in> set (bonds M)" "b \<notin> set (bonds M2)" for b
  proof (cases "b \<in> set (bonds M1)")
    case False
    from RB1 [OF b(1) False] obtain h where h: "h \<in> set (atoms M)" "h \<notin> set (atoms M1)"
        "element h = ''H''" "touches (atom_id h) b" by blast
    have "h \<notin> set (atoms M2)"
    proof
      assume "h \<in> set (atoms M2)"
      from N2 [OF this h(2)] obtain i where "g1 \<le> i" "atom_id h = u i" by blast
      with g01 freshAtom [of i h] h(1) show False by simp
    qed
    with h show ?thesis by blast
  next
    case True
    from RB2 [OF True b(2)] obtain h where h: "h \<in> set (atoms M1)" "h \<notin> set (atoms M2)"
        "element h = ''H''" "touches (atom_id h) b" by blast
    have "h \<in> set (atoms M)"
    proof (rule ccontr)
      assume "h \<notin> set (atoms M)"
      from N1 [OF h(1) this] obtain i where "g \<le> i" "atom_id h = u i" by blast
      with freshBond [of i h b] b(1) h(4) show False by simp
    qed
    with h show ?thesis by blast
  qed
  have NB: "\<exists>h \<in> set (atoms M2). h \<notin> set (atoms M) \<and> element h = ''H'' \<and> targetAtomId b = atom_id h"
    if b: "b \<in> set (bonds M2)" "b \<notin> set (bonds M)" for b
  proof (cases "b \<in> set (bonds M1)")
    case True
    from NB1 [OF True b(2)] obtain h where h: "h \<in> set (atoms M1)" "h \<notin> set (atoms M)"
        "targetAtomId b = atom_id h" by blast
    have "touches (atom_id h) b" using h(3) by (simp add: touches_def)
    with O2 [OF b(1) h(1)] have "h \<in> set (atoms M2)" by blast
    moreover have "element h = ''H''" using N1 [OF h(1,2)] by blast
    ultimately show ?thesis using h by blast
  next
    case False
    from NB2 [OF b(1) False] obtain h where h: "h \<in> set (atoms M2)" "h \<notin> set (atoms M1)"
        "targetAtomId b = atom_id h" by blast
    from N2 [OF h(1,2)] obtain i where i: "element h = ''H''" "g1 \<le> i" "atom_id h = u i" by blast
    with g01 freshAtom [of i h] have "h \<notin> set (atoms M)" by simp
    with h i show ?thesis by blast
  qed
  show ?thesis
    unfolding Let_def res using A B R N RB NB by blast
qed

section \<open>Bond type changed: concrete runs\<close>

lemma testUuid_inj: "inj_on testUuid A"
proof (rule inj_onI)
  fix i j
  assume "testUuid i = testUuid j"
  then have "length (testUuid i) = length (testUuid j)" by simp
  then show "i = j" by (simp add: testUuid_def)
qed

lemma testUuid_eq: "testUuid i = testUuid j \<longleftrightarrow> i = j"
  using testUuid_inj [of UNIV] by (auto dest: injD)

lemma testUuid_plain:
  assumes "hd c \<noteq> CHR ''#''"
  shows "testUuid n \<noteq> c" and "c \<noteq> testUuid n"
  using assms by (auto simp add: testUuid_def)

lemma testUuid_nonempty: "testUuid n \<noteq> []" "[] \<noteq> testUuid n"
  by (simp_all add: testUuid_def)

lemmas testUuid_simps = testUuid_eq testUuid_plain testUuid_nonempty

lemma freshFrom_testUuid:
  assumes "\<forall>c \<in> molIds M. c = [] \<or> hd c \<noteq> CHR ''#''"
  shows "freshFrom testUuid g M"
proof -
  have "testUuid i \<noteq> [] \<and> testUuid i \<notin> molIds M" for i
  proof -
    have "testUuid i \<noteq> []" "hd (testUuid i) = CHR ''#''" by (simp_all add: testUuid_def)
    with assms show ?thesis by blast
  qed
  then show ?thesis
    by (simp add: freshFrom_def testUuid_inj)
qed

lemma ethene_ok:
  "distinct (map atom_id (atoms ethene))" "freshFrom testUuid 0 ethene"
proof -
  show "distinct (map atom_id (atoms ethene))"
    by (simp add: ethene_def atomAt_def)
  show "freshFrom testUuid 0 ethene"
    by (rule freshFrom_testUuid) (simp add: molIds_def ethene_def atomAt_def bondOf_def)
qed

lemma ethene_once:
  "updateHydrogensAfterBondTypeChange specTable testUuid 0 ''c1'' ''c2'' ethene =
     (\<lparr>atoms = [atomAt ''c1'' ''C'' 0 0, atomAt ''c2'' ''C'' 40 0,
                hAtomAt testUuid 0 (atomAt ''c1'' ''C'' 0 0) (2 * pi / 3) 0,
                hAtomAt testUuid 0 (atomAt ''c1'' ''C'' 0 0) (2 * pi / 3) 1,
                hAtomAt testUuid 4 (atomAt ''c2'' ''C'' 40 0) (2 * pi / 3) 0,
                hAtomAt testUuid 4 (atomAt ''c2'' ''C'' 40 0) (2 * pi / 3) 1],
       bonds = [bondOf ''b1'' ''c1'' ''c2'' Double,
                hBondAt testUuid 0 (atomAt ''c1'' ''C'' 0 0) 0,
                hBondAt testUuid 0 (atomAt ''c1'' ''C'' 0 0) 1,
                hBondAt testUuid 4 (atomAt ''c2'' ''C'' 40 0) 0,
                hBondAt testUuid 4 (atomAt ''c2'' ''C'' 40 0) 1]\<rparr>, 8)"
  by (simp add: updateHydrogensAfterBondTypeChange_def bondTypeChangeStep_def stripHydrogens_def
      resolver_defs withoutAtoms_def getRequiredHydrogens_cases getAtomBondCount_def
      addHydrogensToAtom_shape withHydrogens_def simpleStep_def fixture_defs ethene_def Let_def
      upt_conv_Cons hAtomAt_def hBondAt_def testUuid_simps)

lemma conn_c1_once:
  "getConnectedHydrogens ''c1'' (fst etheneOnce) =
     [hAtomAt testUuid 0 (atomAt ''c1'' ''C'' 0 0) (2 * pi / 3) 0,
      hAtomAt testUuid 0 (atomAt ''c1'' ''C'' 0 0) (2 * pi / 3) 1]"
  unfolding etheneOnce_def ethene_once fst_conv
  by (simp add: resolver_defs atomAt_def bondOf_def hAtomAt_simps hBondAt_simps testUuid_simps)

text \<open>
  The run of C4 on a carbon with three hydrogens whose bond to a second carbon became a
  double bond: two hydrogens after the first call, two after the second.
\<close>

theorem reconcile_idempotent_witness:
  "distinct (map atom_id (atoms ethene)) \<and> freshFrom testUuid 0 ethene
   \<and> atomAt ''c1'' ''C'' 0 0 \<in> set (atoms (fst etheneTwice))
   \<and> length (getConnectedHydrogens ''c1'' (fst etheneTwice))
       = length (getConnectedHydrogens ''c1'' (fst etheneOnce))
   \<and> length (getConnectedHydrogens ''c1'' (fst etheneOnce)) = 2
   \<and> length (getConnectedHydrogens ''c1'' ethene) = 3"
proof -
  have wf: "wellFormed testUuid 0 ethene"
    using ethene_ok by (simp add: wellFormed_def)
  have wf1: "wellFormed testUuid (snd etheneOnce) (fst etheneOnce)"
    unfolding etheneOnce_def by (rule update_wellFormed [OF wf])
  have "heavyAt ''c1'' ethene (atomAt ''c1'' ''C'' 0 0)"
    by (simp add: heavyAt_def ethene_def atomAt_def)
  then have "heavyAt ''c1'' (fst etheneOnce) (atomAt ''c1'' ''C'' 0 0)"
    unfolding etheneOnce_def using update_heavyAt [OF wf] by blast
  then have "heavyAt ''c1'' (fst etheneTwice) (atomAt ''c1'' ''C'' 0 0)"
    unfolding etheneTwice_def using update_heavyAt [OF wf1] by blast
  then have c1: "atomAt ''c1'' ''C'' 0 0 \<in> set (atoms (fst etheneTwice))"
      "element (atomAt ''c1'' ''C'' 0 0) \<noteq> ''H''" "atom_id (atomAt ''c1'' ''C'' 0 0) = ''c1''"
    by (simp_all add: heavyAt_def)
  have "\<forall>a \<in> set (atoms (fst etheneTwice)). element a \<noteq> ''H'' \<longrightarrow>
      a \<in> set (atoms (fst etheneOnce))
      \<and> length (getConnectedHydrogens (atom_id a) (fst etheneTwice))
        = length (getConnectedHydrogens (atom_id a) (fst etheneOnce))"
    using reconcile_idempotent [OF ethene_ok, of specTable "''c1''" "''c2''"]
    unfolding etheneTwice_def etheneOnce_def by (simp add: case_prod_beta)
  with c1 have same: "length (getConnectedHydrogens ''c1'' (fst etheneTwice))
      = length (getConnectedHydrogens ''c1'' (fst etheneOnce))"
    by fastforce
  have three: "length (getConnectedHydrogens ''c1'' ethene) = 3"
    by (simp add: resolver_defs ethene_def atomAt_def bondOf_def)
  from ethene_ok c1(1) same three show ?thesis
    by (simp add: conn_c1_once)
qed

text \<open>
  The run of C10 on the same molecule: the two carbons and their bond stay.
\<close>

theorem bond_type_change_frame_witness:
  "distinct (map atom_id (atoms ethene)) \<and> freshFrom testUuid 0 ethene
   \<and> filter (\<lambda>a. element a \<noteq> ''H'') (atoms (fst etheneOnce))
       = [atomAt ''c1'' ''C'' 0 0, atomAt ''c2'' ''C'' 40 0]
   \<and> filter (heavyBond ethene) (bonds (fst etheneOnce)) = [bondOf ''b1'' ''c1'' ''c2'' Double]"
  using bond_type_change_frame [OF ethene_ok, of specTable "''c1''" "''c2''"] ethene_ok
  unfolding Let_def etheneOnce_def
  by (simp add: ethene_def fixture_defs heavyBond_def heavyId_def)

section \<open>Unknown atom ids\<close>

text \<open>
  A round of the bond-type-change loop appends hydrogens only, so an id that no atom of the
  molecule carries names no non-hydrogen atom after the round either.
\<close>

lemma find_append_None:
  "find P xs = None \<Longrightarrow> find P (xs @ ys) = find P ys"
  by (induction xs) (simp_all split: if_splits)

lemma find_new_hydrogen:
  "find (\<lambda>a. atom_id a = x) (map (hAtomAt u g atom step) ks) = Some a \<Longrightarrow> element a = ''H''"
  by (auto simp add: find_Some_iff hAtomAt_simps)

lemma step_keeps_absent:
  assumes "x \<notin> atom_id ` set (atoms M)"
  shows "\<not> active x (fst (bondTypeChangeStep vt u (M, g) y))"
proof (cases "find (\<lambda>a. atom_id a = y) (atoms M)")
  case None
  then show ?thesis
    using assms by (simp add: bondTypeChangeStep_def active_def find_absent)
next
  case (Some atom)
  show ?thesis
  proof (cases "element atom = ''H''")
    case True
    with Some show ?thesis
      using assms by (simp add: bondTypeChangeStep_def active_def find_absent)
  next
    case False
    have old: "find (\<lambda>a. atom_id a = x) (atoms (stripHydrogens y M)) = None"
      using assms by (auto simp add: atoms_stripHydrogens find_None_iff)
    show ?thesis
      unfolding step_active [OF Some False] fst_conv active_def
      by (auto simp add: withHydrogens_def find_append_None [OF old] dest: find_new_hydrogen
          split: option.splits)
  qed
qed

text \<open>
  C9. For an atom id that no atom of the molecule carries, \<open>updateHydrogensAfterBonding\<close>
  and \<open>updateHydrogensAfterBondRemoval\<close> return the molecule (and the generator)
  unchanged. \<open>updateHydrogensAfterBondTypeChange\<close> skips such an id and still runs its
  round for the other one: with the source id absent it returns what one round for the
  target id returns on the input, with the target id absent what one round for the source
  id returns, and with both ids absent the input unchanged.
\<close>

theorem unknown_atom_skipped:
  "(atomId \<notin> atom_id ` set (atoms M) \<longrightarrow>
      updateHydrogensAfterBonding vt atomId M = M
    \<and> updateHydrogensAfterBondRemoval vt u g atomId M = (M, g))
   \<and> (sourceId \<notin> atom_id ` set (atoms M) \<longrightarrow>
      updateHydrogensAfterBondTypeChange vt u g sourceId targetId M
        = bondTypeChangeStep vt u (M, g) targetId)
   \<and> (targetId \<notin> atom_id ` set (atoms M) \<longrightarrow>
      updateHydrogensAfterBondTypeChange vt u g sourceId targetId M
        = bondTypeChangeStep vt u (M, g) sourceId)
   \<and> (sourceId \<notin> atom_id ` set (atoms M) \<and> targetId \<notin> atom_id ` set (atoms M) \<longrightarrow>
      updateHydrogensAfterBondTypeChange vt u g sourceId targetId M = (M, g))"
proof (intro conjI impI)
  assume "atomId \<notin> atom_id ` set (atoms M)"
  then show "updateHydrogensAfterBonding vt atomId M = M"
    and "updateHydrogensAfterBondRemoval vt u g atomId M = (M, g)"
    by (simp_all add: find_absent updateHydrogensAfterBonding_def
        updateHydrogensAfterBondRemoval_def)
next
  assume "sourceId \<notin> atom_id ` set (atoms M)"
  then show "updateHydrogensAfterBondTypeChange vt u g sourceId targetId M
      = bondTypeChangeStep vt u (M, g) targetId"
    by (simp add: find_absent updateHydrogensAfterBondTypeChange_def bondTypeChangeStep_def)
next
  assume "targetId \<notin> atom_id ` set (atoms M)"
  from step_keeps_absent [OF this, of vt u g sourceId]
  have "bondTypeChangeStep vt u (bondTypeChangeStep vt u (M, g) sourceId) targetId
      = bondTypeChangeStep vt u (M, g) sourceId"
    using step_inactive [of targetId "fst (bondTypeChangeStep vt u (M, g) sourceId)" vt u
        "snd (bondTypeChangeStep vt u (M, g) sourceId)"]
    by simp
  then show "updateHydrogensAfterBondTypeChange vt u g sourceId targetId M
      = bondTypeChangeStep vt u (M, g) sourceId"
    by (simp add: updateHydrogensAfterBondTypeChange_def)
next
  assume "sourceId \<notin> atom_id ` set (atoms M) \<and> targetId \<notin> atom_id ` set (atoms M)"
  then show "updateHydrogensAfterBondTypeChange vt u g sourceId targetId M = (M, g)"
    by (simp add: find_absent updateHydrogensAfterBondTypeChange_def bondTypeChangeStep_def)
qed

text \<open>
  Runs on a carbon with four hydrogens and a bond to a second carbon. The id \<open>zz\<close> is
  absent; the round for \<open>c1\<close> strips the four hydrogens and adds three new ones, whichever
  of the two arguments \<open>zz\<close> is, so the molecule returned is not the input.
\<close>

lemma step_methane:
  "bondTypeChangeStep specTable testUuid (methaneBonded, 0) ''c1'' =
     (\<lparr>atoms = [atomAt ''c1'' ''C'' 0 0, atomAt ''c2'' ''C'' 40 40,
                hAtomAt testUuid 0 (atomAt ''c1'' ''C'' 0 0) (2 * pi / 3) 0,
                hAtomAt testUuid 0 (atomAt ''c1'' ''C'' 0 0) (2 * pi / 3) 1,
                hAtomAt testUuid 0 (atomAt ''c1'' ''C'' 0 0) (2 * pi / 3) 2],
       bonds = [bondOf ''b5'' ''c1'' ''c2'' Single,
                hBondAt testUuid 0 (atomAt ''c1'' ''C'' 0 0) 0,
                hBondAt testUuid 0 (atomAt ''c1'' ''C'' 0 0) 1,
                hBondAt testUuid 0 (atomAt ''c1'' ''C'' 0 0) 2]\<rparr>, 6)"
proof -
  have f: "find (\<lambda>a. atom_id a = ''c1'') (atoms methaneBonded) = Some (atomAt ''c1'' ''C'' 0 0)"
    by (simp add: methaneBonded_def atomAt_def)
  have e: "element (atomAt ''c1'' ''C'' 0 0) \<noteq> ''H''"
    by (simp add: atomAt_def)
  show ?thesis
    unfolding step_active [OF f e] strip_methane
    by (simp add: getRequiredHydrogens_cases getAtomBondCount_def withHydrogens_def
        simpleStep_def atomAt_def bondOf_def specTable_def specBestValence_def specValences_def
        upt_conv_Cons numeral_2_eq_2)
qed

lemma methane_absent_source:
  "updateHydrogensAfterBondTypeChange specTable testUuid 0 ''zz'' ''c1'' methaneBonded
     = bondTypeChangeStep specTable testUuid (methaneBonded, 0) ''c1''"
proof -
  have "bondTypeChangeStep specTable testUuid (methaneBonded, 0) ''zz'' = (methaneBonded, 0)"
    by (simp add: bondTypeChangeStep_def methaneBonded_def atomAt_def)
  then show ?thesis
    by (simp add: updateHydrogensAfterBondTypeChange_def)
qed

lemma methane_absent_target:
  "updateHydrogensAfterBondTypeChange specTable testUuid 0 ''c1'' ''zz'' methaneBonded
     = bondTypeChangeStep specTable testUuid (methaneBonded, 0) ''c1''"
  unfolding updateHydrogensAfterBondTypeChange_def foldl.simps step_methane
  by (simp add: bondTypeChangeStep_def atomAt_def hAtomAt_simps testUuid_simps)

theorem unknown_atom_skipped_witness:
  "''zz'' \<notin> atom_id ` set (atoms methaneBonded)
   \<and> ''yy'' \<notin> atom_id ` set (atoms methaneBonded)
   \<and> updateHydrogensAfterBonding specTable ''zz'' methaneBonded = methaneBonded
   \<and> updateHydrogensAfterBondRemoval specTable testUuid 0 ''zz'' methaneBonded = (methaneBonded, 0)
   \<and> updateHydrogensAfterBondTypeChange specTable testUuid 0 ''zz'' ''c1'' methaneBonded
       = bondTypeChangeStep specTable testUuid (methaneBonded, 0) ''c1''
   \<and> updateHydrogensAfterBondTypeChange specTable testUuid 0 ''c1'' ''zz'' methaneBonded
       = bondTypeChangeStep specTable testUuid (methaneBonded, 0) ''c1''
   \<and> updateHydrogensAfterBondTypeChange specTable testUuid 0 ''zz'' ''yy'' methaneBonded
       = (methaneBonded, 0)"
proof -
  have absent: "''zz'' \<notin> atom_id ` set (atoms methaneBonded)"
      "''yy'' \<notin> atom_id ` set (atoms methaneBonded)"
    by (simp_all add: methaneBonded_def atomAt_def)
  with unknown_atom_skipped [of "''zz''" methaneBonded specTable testUuid 0 "''zz''" "''c1''"]
    unknown_atom_skipped [of "''zz''" methaneBonded specTable testUuid 0 "''c1''" "''zz''"]
    unknown_atom_skipped [of "''zz''" methaneBonded specTable testUuid 0 "''zz''" "''yy''"]
  show ?thesis by blast
qed

theorem unknown_atom_changed_counterexample:
  "''zz'' \<notin> atom_id ` set (atoms methaneBonded)
   \<and> map atom_id (atoms methaneBonded) = [''c1'', ''h1'', ''h2'', ''h3'', ''h4'', ''c2'']
   \<and> map atom_id (atoms (fst (updateHydrogensAfterBondTypeChange specTable testUuid 0
         ''zz'' ''c1'' methaneBonded)))
       = [''c1'', ''c2'', testUuid 0, testUuid 2, testUuid 4]
   \<and> map atom_id (atoms (fst (updateHydrogensAfterBondTypeChange specTable testUuid 0
         ''c1'' ''zz'' methaneBonded)))
       = [''c1'', ''c2'', testUuid 0, testUuid 2, testUuid 4]
   \<and> fst (updateHydrogensAfterBondTypeChange specTable testUuid 0 ''zz'' ''c1'' methaneBonded)
       \<noteq> methaneBonded
   \<and> fst (updateHydrogensAfterBondTypeChange specTable testUuid 0 ''c1'' ''zz'' methaneBonded)
       \<noteq> methaneBonded"
  unfolding methane_absent_source methane_absent_target step_methane
  by (simp add: methaneBonded_def atomAt_def hAtomAt_simps testUuid_eq)

section \<open>The scan over candidate angles\<close>

lemma candidate_0: "candidate 0 = 0"
  by (simp add: candidate_def)

lemma candidate_Suc: "candidate n + pi / 6 = candidate (Suc n)"
  by (simp add: candidate_def algebra_simps)

lemma candidate_less: "candidate n < pi * 2 \<longleftrightarrow> n < 12"
proof -
  have "candidate n < pi * 2 \<longleftrightarrow> real n * (pi / 6) < 12 * (pi / 6)"
    by (simp add: candidate_def)
  also have "\<dots> \<longleftrightarrow> real n < 12"
    by (rule mult_less_cancel_right_pos) simp
  also have "\<dots> \<longleftrightarrow> n < 12" by simp
  finally show ?thesis .
qed

lemma candidate_nonneg: "0 \<le> candidate n"
  by (simp add: candidate_def)

lemma candidate_inj: "candidate i = candidate j \<longleftrightarrow> i = j"
  by (simp add: candidate_def)

lemma candidate_le_pi: "n < 7 \<Longrightarrow> candidate n \<le> pi"
proof -
  assume "n < 7"
  then have "real n \<le> 6" by simp
  then have "real n * (pi / 6) \<le> 6 * (pi / 6)"
    by (rule mult_right_mono) simp
  then show ?thesis by (simp add: candidate_def)
qed

lemma foldl_min_less:
  "c < foldl (\<lambda>m x. min m (f x)) a xs \<longleftrightarrow> c < a \<and> (\<forall>x \<in> set xs. c < f x)"
  for c :: real
proof (induction xs arbitrary: a)
  case Nil
  show ?case by simp
next
  case (Cons x xs)
  show ?case unfolding foldl_Cons Cons.IH by auto
qed

lemma minDistanceTo_pos:
  "0 < minDistanceTo t eps eas \<longleftrightarrow>
     (\<forall>p \<in> set eps. 0 < normalizedDiff t (pp_angle p)) \<and> (\<forall>e \<in> set eas. 0 < normalizedDiff t e)"
  unfolding minDistanceTo_def Let_def foldl_min_less by simp

lemma normalizedDiff_pos:
  "0 < normalizedDiff t a \<longleftrightarrow> t \<noteq> a \<and> \<bar>t - a\<bar> < pi * 2"
  unfolding normalizedDiff_def Let_def by auto

lemma scanAngles_invariant:
  assumes "n \<le> 12" and "0 \<le> maxD" and "0 < maxD \<longrightarrow> minDistanceTo best eps eas = maxD"
  shows "(scanAngles eps eas (candidate n) best maxD = best
          \<or> (\<exists>k. n \<le> k \<and> k < 12 \<and> scanAngles eps eas (candidate n) best maxD = candidate k))
       \<and> (0 < maxD \<or> (\<exists>k. n \<le> k \<and> k < 12 \<and> 0 < minDistanceTo (candidate k) eps eas)
            \<longrightarrow> 0 < minDistanceTo (scanAngles eps eas (candidate n) best maxD) eps eas)"
  using assms
proof (induction "12 - n" arbitrary: n best maxD)
  case 0
  then have n: "n = 12" by simp
  have "\<not> candidate n < pi * 2" unfolding candidate_less n by simp
  then have r: "scanAngles eps eas (candidate n) best maxD = best"
    by (subst scanAngles.simps) simp
  show ?case unfolding r using 0(4) n by auto
next
  case (Suc d)
  then have n: "n < 12" and d: "d = 12 - Suc n" and n': "Suc n \<le> 12" by simp_all
  have lt: "candidate n < pi * 2" unfolding candidate_less using n .
  let ?m = "minDistanceTo (candidate n) eps eas"
  show ?case
  proof (cases "?m > maxD")
    case True
    have r: "scanAngles eps eas (candidate n) best maxD
        = scanAngles eps eas (candidate (Suc n)) (candidate n) ?m"
      using lt True by (subst scanAngles.simps) (simp add: candidate_Suc Let_def)
    have pos: "0 < ?m" using True Suc.prems(2) by linarith
    then have m0: "0 \<le> ?m" by simp
    from Suc.hyps(1) [OF d n' m0, of "candidate n"]
    have ih: "(scanAngles eps eas (candidate (Suc n)) (candidate n) ?m = candidate n
          \<or> (\<exists>k. Suc n \<le> k \<and> k < 12
                \<and> scanAngles eps eas (candidate (Suc n)) (candidate n) ?m = candidate k))
       \<and> (0 < ?m \<or> (\<exists>k. Suc n \<le> k \<and> k < 12 \<and> 0 < minDistanceTo (candidate k) eps eas)
            \<longrightarrow> 0 < minDistanceTo (scanAngles eps eas (candidate (Suc n)) (candidate n) ?m) eps eas)"
      by simp
    from ih pos n show ?thesis
      unfolding r by (metis Suc_leD le_refl)
  next
    case False
    have r: "scanAngles eps eas (candidate n) best maxD
        = scanAngles eps eas (candidate (Suc n)) best maxD"
      using lt False by (subst scanAngles.simps) (simp add: candidate_Suc Let_def)
    from Suc.hyps(1) [OF d n' Suc.prems(2,3)]
    have ih: "(scanAngles eps eas (candidate (Suc n)) best maxD = best
          \<or> (\<exists>k. Suc n \<le> k \<and> k < 12
                \<and> scanAngles eps eas (candidate (Suc n)) best maxD = candidate k))
       \<and> (0 < maxD \<or> (\<exists>k. Suc n \<le> k \<and> k < 12 \<and> 0 < minDistanceTo (candidate k) eps eas)
            \<longrightarrow> 0 < minDistanceTo (scanAngles eps eas (candidate (Suc n)) best maxD) eps eas)"
      .
    have later: "\<exists>k. Suc n \<le> k \<and> k < 12 \<and> 0 < minDistanceTo (candidate k) eps eas"
      if "\<not> 0 < maxD" "n \<le> k" "k < 12" "0 < minDistanceTo (candidate k) eps eas" for k
    proof (cases "k = n")
      case True
      with that False show ?thesis by simp
    next
      case False
      with that show ?thesis by (intro exI [of _ k]) simp
    qed
    from ih later show ?thesis
      unfolding r by (metis Suc_leD)
  qed
qed

lemma scanAngles_result:
  "(\<exists>k<12. scanAngles eps eas 0 0 0 = candidate k)
   \<and> ((\<exists>k<12. 0 < minDistanceTo (candidate k) eps eas)
        \<longrightarrow> 0 < minDistanceTo (scanAngles eps eas 0 0 0) eps eas)"
proof -
  have "(scanAngles eps eas (candidate 0) 0 0 = 0
          \<or> (\<exists>k. 0 \<le> k \<and> k < 12 \<and> scanAngles eps eas (candidate 0) 0 0 = candidate k))
       \<and> ((0::real) < 0 \<or> (\<exists>k. 0 \<le> k \<and> k < 12 \<and> 0 < minDistanceTo (candidate k) eps eas)
            \<longrightarrow> 0 < minDistanceTo (scanAngles eps eas (candidate 0) 0 0) eps eas)"
    by (rule scanAngles_invariant) simp_all
  then have a: "scanAngles eps eas 0 0 0 = 0
          \<or> (\<exists>k. 0 \<le> k \<and> k < 12 \<and> scanAngles eps eas 0 0 0 = candidate k)"
    and b: "(\<exists>k. 0 \<le> k \<and> k < 12 \<and> 0 < minDistanceTo (candidate k) eps eas)
            \<longrightarrow> 0 < minDistanceTo (scanAngles eps eas 0 0 0) eps eas"
    unfolding candidate_0 by simp_all
  from a have 1: "\<exists>k<12. scanAngles eps eas 0 0 0 = candidate k"
  proof
    assume "scanAngles eps eas 0 0 0 = 0"
    then have "(0::nat) < 12 \<and> scanAngles eps eas 0 0 0 = candidate 0"
      by (simp add: candidate_0)
    then show ?thesis by blast
  next
    assume "\<exists>k. 0 \<le> k \<and> k < 12 \<and> scanAngles eps eas 0 0 0 = candidate k"
    then show ?thesis by blast
  qed
  from b have 2: "(\<exists>k<12. 0 < minDistanceTo (candidate k) eps eas)
        \<longrightarrow> 0 < minDistanceTo (scanAngles eps eas 0 0 0) eps eas"
    by blast
  from 1 2 show ?thesis by blast
qed

section \<open>A free candidate, and the angles the placement loop picks\<close>

lemma free_candidate:
  assumes len: "length eps + length eas \<le> 6"
    and rng: "\<forall>a \<in> set (map pp_angle eps @ eas). - pi < a \<and> a < pi * 2"
  shows "\<exists>k<7. 0 < minDistanceTo (candidate k) eps eas"
proof -
  let ?A = "set (map pp_angle eps @ eas)"
  have "card ?A \<le> length (map pp_angle eps @ eas)" by (rule card_length)
  with len have cA: "card ?A \<le> 6" by simp
  have "inj_on candidate {0..<7}"
    by (rule inj_onI) (simp add: candidate_inj)
  then have cC: "card (candidate ` {0..<7}) = 7"
    by (simp add: card_image)
  have "\<not> candidate ` {0..<7} \<subseteq> ?A"
  proof
    assume "candidate ` {0..<7} \<subseteq> ?A"
    then have "card (candidate ` {0..<7}) \<le> card ?A"
      by (rule card_mono [rotated]) simp
    with cA cC show False by simp
  qed
  then obtain c where c: "c \<in> candidate ` {0..<7}" "c \<notin> ?A" by blast
  from c(1) obtain k where "k < 7" "c = candidate k" by auto
  with c(2) have k: "k < 7" "candidate k \<notin> ?A" by simp_all
  have ok: "0 < normalizedDiff (candidate k) a" if a: "a \<in> ?A" for a
  proof -
    from rng a have r: "- pi < a" "a < pi * 2" by blast+
    have c: "0 \<le> candidate k" "candidate k \<le> pi"
      using candidate_nonneg candidate_le_pi [OF k(1)] by simp_all
    from k(2) a have "candidate k \<noteq> a" by blast
    moreover from r c have "\<bar>candidate k - a\<bar> < pi * 2" by (simp add: abs_less_iff)
    ultimately show ?thesis unfolding normalizedDiff_pos by simp
  qed
  have "0 < minDistanceTo (candidate k) eps eas"
    unfolding minDistanceTo_pos using ok by simp
  with k(1) show ?thesis by blast
qed

lemma scan_fresh:
  assumes len: "length eps + length eas \<le> 6"
    and rng: "\<forall>a \<in> set (map pp_angle eps @ eas). - pi < a \<and> a < pi * 2"
  shows "scanAngles eps eas 0 0 0 \<notin> set (map pp_angle eps @ eas)
     \<and> 0 \<le> scanAngles eps eas 0 0 0 \<and> scanAngles eps eas 0 0 0 < pi * 2"
proof -
  let ?R = "scanAngles eps eas 0 0 0"
  from free_candidate [OF len rng] obtain k where "k < 7" "0 < minDistanceTo (candidate k) eps eas"
    by blast
  then have "\<exists>k<12. 0 < minDistanceTo (candidate k) eps eas"
    by (intro exI [of _ k]) simp
  with scanAngles_result [of eps eas] have pos: "0 < minDistanceTo ?R eps eas"
    and cand: "\<exists>k<12. ?R = candidate k" by blast+
  from cand obtain j where j: "j < 12" "?R = candidate j" by blast
  have 1: "0 \<le> ?R" "?R < pi * 2"
    unfolding j(2) using candidate_nonneg candidate_less j(1) by simp_all
  have 2: "?R \<notin> set (map pp_angle eps @ eas)"
  proof
    assume "?R \<in> set (map pp_angle eps @ eas)"
    then have "(\<exists>p \<in> set eps. ?R = pp_angle p) \<or> ?R \<in> set eas" by auto
    moreover from pos have "\<forall>p \<in> set eps. ?R \<noteq> pp_angle p" "\<forall>e \<in> set eas. ?R \<noteq> e"
      unfolding minDistanceTo_pos normalizedDiff_pos by blast+
    ultimately show False by blast
  qed
  from 1 2 show ?thesis by simp
qed

lemma placeLoop_angles:
  assumes "length eps + length eas + nat (n - i) \<le> 7"
    and "\<forall>a \<in> set (map pp_angle eps @ eas). - pi < a \<and> a < pi * 2"
  shows "\<exists>P A B. placeLoop u atom eas n i g eps na nb = (eps @ P, na @ A, nb @ B, g + 2 * nat (n - i))
     \<and> length P = nat (n - i) \<and> length A = nat (n - i) \<and> length B = nat (n - i)
     \<and> distinct (map pp_angle P)
     \<and> (\<forall>p \<in> set P. pp_angle p \<notin> set (map pp_angle eps @ eas)
                     \<and> 0 \<le> pp_angle p \<and> pp_angle p < pi * 2)
     \<and> map position A = map (\<lambda>p. angleAt atom (pp_angle p)) P
     \<and> (\<forall>h \<in> set A. element h = ''H'')
     \<and> (\<forall>b \<in> set B. sourceAtomId b = atom_id atom \<and> bond_type b = Single)"
  using assms
proof (induction "nat (n - i)" arbitrary: i g eps na nb)
  case 0
  then have "\<not> i < n" by simp
  then have "placeLoop u atom eas n i g eps na nb = (eps, na, nb, g)"
    by (subst placeLoop.simps) simp
  with 0(1) [symmetric] show ?case by simp
next
  case (Suc d)
  then have lt: "i < n" and d: "d = nat (n - (i + 1))" by simp_all
  let ?R = "scanAngles eps eas 0 0 0"
  let ?r = "\<lparr>pp_angle = ?R, pp_distance = hydrogenDistance\<rparr>"
  let ?hA = "\<lparr>atom_id = u g, element = ''H'', position = angleAt atom ?R\<rparr>"
  let ?hB = "\<lparr>bond_id = u (Suc g), sourceAtomId = atom_id atom, targetAtomId = u g,
              bond_type = Single\<rparr>"
  have len6: "length eps + length eas \<le> 6"
    using Suc.prems(1) Suc.hyps(2) [symmetric] by simp
  from scan_fresh [OF len6 Suc.prems(2)]
  have R: "?R \<notin> set (map pp_angle eps @ eas)" "0 \<le> ?R" "?R < pi * 2" by simp_all
  have step: "placeLoop u atom eas n i g eps na nb =
      placeLoop u atom eas n (i + 1) (Suc (Suc g)) (eps @ [?r]) (na @ [?hA]) (nb @ [?hB])"
    using lt by (subst placeLoop.simps) (simp add: newHydrogen_eq angleAt_def Let_def)
  have len': "length (eps @ [?r]) + length eas + nat (n - (i + 1)) \<le> 7"
    using Suc.prems(1) Suc.hyps(2) [symmetric] d by simp
  have rng': "\<forall>a \<in> set (map pp_angle (eps @ [?r]) @ eas). - pi < a \<and> a < pi * 2"
  proof
    fix a
    assume "a \<in> set (map pp_angle (eps @ [?r]) @ eas)"
    then have "a \<in> set (map pp_angle eps @ eas) \<or> a = ?R" by auto
    then show "- pi < a \<and> a < pi * 2"
    proof
      assume "a \<in> set (map pp_angle eps @ eas)"
      with Suc.prems(2) show ?thesis by blast
    next
      assume "a = ?R"
      with R(2,3) pi_gt_zero show ?thesis by simp
    qed
  qed
  from Suc.hyps(1) [OF d len' rng', of "Suc (Suc g)" "na @ [?hA]" "nb @ [?hB]"]
  obtain P A B where ih:
      "placeLoop u atom eas n (i + 1) (Suc (Suc g)) (eps @ [?r]) (na @ [?hA]) (nb @ [?hB])
        = ((eps @ [?r]) @ P, (na @ [?hA]) @ A, (nb @ [?hB]) @ B, Suc (Suc g) + 2 * nat (n - (i + 1)))"
      "length P = nat (n - (i + 1))" "length A = nat (n - (i + 1))" "length B = nat (n - (i + 1))"
      "distinct (map pp_angle P)"
      "\<forall>p \<in> set P. pp_angle p \<notin> set (map pp_angle (eps @ [?r]) @ eas)
                     \<and> 0 \<le> pp_angle p \<and> pp_angle p < pi * 2"
      "map position A = map (\<lambda>p. angleAt atom (pp_angle p)) P"
      "\<forall>h \<in> set A. element h = ''H''"
      "\<forall>b \<in> set B. sourceAtomId b = atom_id atom \<and> bond_type b = Single"
    by blast
  have k: "nat (n - i) = Suc (nat (n - (i + 1)))" using lt by simp
  have 1: "placeLoop u atom eas n i g eps na nb
      = (eps @ (?r # P), na @ (?hA # A), nb @ (?hB # B), g + 2 * nat (n - i))"
    unfolding step ih(1) k by simp
  have 2: "length (?r # P) = nat (n - i)" "length (?hA # A) = nat (n - i)"
      "length (?hB # B) = nat (n - i)"
    unfolding k using ih(2-4) by simp_all
  have 3: "distinct (map pp_angle (?r # P))"
    using ih(5,6) by auto
  have 4: "\<forall>p \<in> set (?r # P). pp_angle p \<notin> set (map pp_angle eps @ eas)
                     \<and> 0 \<le> pp_angle p \<and> pp_angle p < pi * 2"
    using ih(6) R by auto
  have 5: "map position (?hA # A) = map (\<lambda>p. angleAt atom (pp_angle p)) (?r # P)"
    using ih(7) by simp
  have 6: "\<forall>h \<in> set (?hA # A). element h = ''H''"
    using ih(8) by simp
  have 7: "\<forall>b \<in> set (?hB # B). sourceAtomId b = atom_id atom \<and> bond_type b = Single"
    using ih(9) by simp
  from 1 2 3 4 5 6 7 show ?case by blast
qed

section \<open>Obstacle angles, their number, and positions on the circle\<close>

lemma atan2_range: "- pi < atan2 y x \<and> atan2 y x \<le> pi"
proof -
  have lb: "- (pi / 2) < arctan (y / x)" by (rule arctan_lbound)
  have ub: "arctan (y / x) < pi / 2" by (rule arctan_ubound)
  have p: "0 < pi" by (rule pi_gt_zero)
  consider "0 < x" | "x < 0" "0 \<le> y" | "x < 0" "y < 0" | "x = 0" "0 < y" | "x = 0" "y < 0"
    | "x = 0" "y = 0"
    by linarith
  then show ?thesis
  proof cases
    case 1
    then have "atan2 y x = arctan (y / x)" by (simp add: atan2_def)
    with lb ub p show ?thesis by linarith
  next
    case 2
    then have e: "atan2 y x = arctan (y / x) + pi" by (simp add: atan2_def)
    from 2 have "y / x \<le> 0" by (simp add: divide_nonneg_neg)
    then have "arctan (y / x) \<le> 0" using arctan_monotone' [of "y / x" 0] by simp
    with e lb p show ?thesis by linarith
  next
    case 3
    then have e: "atan2 y x = arctan (y / x) - pi" by (simp add: atan2_def)
    from 3 have "0 < y / x" by (simp add: divide_neg_neg)
    then have "0 < arctan (y / x)" using arctan_monotone [of 0 "y / x"] by simp
    with e ub p show ?thesis by linarith
  next
    case 4
    then have "atan2 y x = pi / 2" by (simp add: atan2_def)
    with p show ?thesis by linarith
  next
    case 5
    then have "atan2 y x = - (pi / 2)" by (simp add: atan2_def)
    with p show ?thesis by linarith
  next
    case 6
    then have "atan2 y x = 0" by (simp add: atan2_def)
    with p show ?thesis by linarith
  qed
qed

lemma obstacle_range:
  "\<forall>a \<in> set (map pp_angle (existingPositionsOf atom hs) @ existingAtomAnglesOf atom bs).
      - pi < a \<and> a < pi * 2"
proof
  fix a
  assume "a \<in> set (map pp_angle (existingPositionsOf atom hs) @ existingAtomAnglesOf atom bs)"
  then obtain y x where "a = atan2 y x"
    by (auto simp add: existingPositionsOf_def existingAtomAnglesOf_def)
  with atan2_range [of y x] pi_gt_zero show "- pi < a \<and> a < pi * 2" by simp
qed

lemma length_concat_le:
  "(\<forall>x \<in> set xs. length (f x) \<le> 1) \<Longrightarrow> length (concat (map f xs)) \<le> length xs"
proof (induction xs)
  case Nil
  show ?case by simp
next
  case (Cons x xs)
  then have "length (f x) \<le> 1" "length (concat (map f xs)) \<le> length xs" by simp_all
  then show ?case by simp
qed

lemma touching_le_count:
  "int (length (filter (touches a) bs)) \<le> getAtomBondCount a bs"
proof (induction bs)
  case Nil
  show ?case by (simp add: getAtomBondCount_Nil)
next
  case (Cons b bs)
  with BOND_ORDER_pos [of "bond_type b"] show ?case
    by (simp add: getAtomBondCount_Cons)
qed

lemma bondedAtoms_le_count:
  "int (length (bondedAtomsOf atomId M)) \<le> getAtomBondCount atomId (bonds M)"
proof -
  have P: "(\<lambda>bond. sourceAtomId bond = atomId \<or> targetAtomId bond = atomId) = touches atomId"
    by (simp add: touches_def fun_eq_iff)
  have "length (bondedAtomsOf atomId M) \<le> length (filter (touches atomId) (bonds M))"
    unfolding bondedAtomsOf_def P
    by (rule length_concat_le) (simp add: Let_def split: option.splits)
  with touching_le_count [of atomId "bonds M"] show ?thesis by linarith
qed

lemma angleAt_inj:
  assumes "angleAt atom a = angleAt atom b" and "0 \<le> a" "a < pi * 2" and "0 \<le> b" "b < pi * 2"
  shows "a = b"
proof -
  from assms(1) have "sin a = sin b \<and> cos a = cos b"
    by (simp add: angleAt_def)
  then obtain n :: int where n: "a = b + 2 * pi * real_of_int n"
    unfolding sin_cos_eq_iff by blast
  have p: "0 \<le> 2 * pi" by simp
  define r where "r = 2 * pi * real_of_int n"
  have r: "- (2 * pi) < r" "r < 2 * pi"
    using assms(2-5) n unfolding r_def by linarith+
  have "\<not> 1 \<le> n"
  proof
    assume "1 \<le> n"
    then have "1 \<le> real_of_int n" by simp
    then have "2 * pi * 1 \<le> 2 * pi * real_of_int n" using p by (rule mult_left_mono)
    with r(2) show False unfolding r_def by simp
  qed
  moreover have "\<not> n \<le> - 1"
  proof
    assume "n \<le> - 1"
    then have "real_of_int n \<le> - 1" by linarith
    then have "2 * pi * real_of_int n \<le> 2 * pi * (- 1)" using p by (rule mult_left_mono)
    with r(1) show False unfolding r_def by simp
  qed
  ultimately have "n = 0" by linarith
  with n show ?thesis by simp
qed

section \<open>Bond removed: the new hydrogens stand at different angles\<close>

text \<open>
  C5. Let the atom be found, not a hydrogen, and let \<open>updateHydrogensAfterBondRemoval\<close> take
  its collision-aware path (more hydrogens required than connected). Let the target valence
  the table answers be at most 7, as for every element of the editor. Then the placement loop
  appends one angle per new hydrogen to the existing positions, these angles are pairwise
  distinct, each new hydrogen stands at its angle on the circle of radius 30 around the atom,
  and so the new hydrogens stand at pairwise distinct positions. Angles and coordinates are
  real numbers here.
\<close>

theorem collision_aware_distinct_angles:
  assumes fa: "find (\<lambda>a. atom_id a = atomId) (atoms M) = Some atom"
    and el: "element atom \<noteq> ''H''"
    and tv: "getBestValenceForBondCount vt (element atom) (getAtomBondCount atomId (bonds M)) = Some tv"
    and bound: "tv \<le> 7"
    and more: "int (length (getConnectedHydrogens atomId M)) < getRequiredHydrogens vt atom (bonds M)"
  shows "\<exists>newPositions newAtoms newBonds.
      placeLoop u atom (existingAtomAnglesOf atom (bondedAtomsOf atomId M))
          (getRequiredHydrogens vt atom (bonds M) - int (length (getConnectedHydrogens atomId M)))
          0 g (existingPositionsOf atom (getConnectedHydrogens atomId M)) [] []
        = (existingPositionsOf atom (getConnectedHydrogens atomId M) @ newPositions,
           newAtoms, newBonds, g + 2 * length newAtoms)
      \<and> updateHydrogensAfterBondRemoval vt u g atomId M
        = (\<lparr>atoms = atoms M @ newAtoms, bonds = bonds M @ newBonds\<rparr>, g + 2 * length newAtoms)
      \<and> int (length newAtoms)
        = getRequiredHydrogens vt atom (bonds M) - int (length (getConnectedHydrogens atomId M))
      \<and> length newPositions = length newAtoms
      \<and> map position newAtoms = map (\<lambda>p. angleAt atom (pp_angle p)) newPositions
      \<and> distinct (map pp_angle newPositions)
      \<and> distinct (map position newAtoms)"
proof -
  let ?hs = "getConnectedHydrogens atomId M"
  let ?eps = "existingPositionsOf atom ?hs"
  let ?eas = "existingAtomAnglesOf atom (bondedAtomsOf atomId M)"
  let ?needed = "getRequiredHydrogens vt atom (bonds M)"
  let ?n = "?needed - int (length ?hs)"
  from find_Some_id [OF fa] have id: "atom_id atom = atomId" by simp
  have cur: "0 \<le> getAtomBondCount atomId (bonds M)" by (rule getAtomBondCount_nonneg)
  from more have "0 < ?needed" by linarith
  with tv have needed: "?needed = tv - getAtomBondCount atomId (bonds M)"
    unfolding getRequiredHydrogens_cases id by (simp split: if_splits)
  have "int (length (bondedAtomsOf atomId M)) \<le> getAtomBondCount atomId (bonds M)"
    by (rule bondedAtoms_le_count)
  with needed bound more have "int (length ?hs) + int (length (bondedAtomsOf atomId M)) + ?n \<le> 7"
    by linarith
  moreover have "0 \<le> ?n" using more by simp
  ultimately have len: "length ?eps + length ?eas + nat (?n - 0) \<le> 7"
    by (simp add: existingPositionsOf_def existingAtomAnglesOf_def)
  have rng: "\<forall>a \<in> set (map pp_angle ?eps @ ?eas). - pi < a \<and> a < pi * 2"
    by (rule obstacle_range)
  from placeLoop_angles [OF len rng, of u atom g "[]" "[]"]
  obtain P A B where r:
      "placeLoop u atom ?eas ?n 0 g ?eps [] [] = (?eps @ P, [] @ A, [] @ B, g + 2 * nat (?n - 0))"
      "length P = nat (?n - 0)" "length A = nat (?n - 0)"
      "distinct (map pp_angle P)"
      "\<forall>p \<in> set P. pp_angle p \<notin> set (map pp_angle ?eps @ ?eas)
                     \<and> 0 \<le> pp_angle p \<and> pp_angle p < pi * 2"
      "map position A = map (\<lambda>p. angleAt atom (pp_angle p)) P"
    by blast
  have lenA: "int (length A) = ?n" using r(3) \<open>0 \<le> ?n\<close> by simp
  have g': "g + 2 * nat (?n - 0) = g + 2 * length A" using r(3) by simp
  have loop: "placeLoop u atom ?eas ?n 0 g ?eps [] [] = (?eps @ P, A, B, g + 2 * length A)"
    using r(1) unfolding g' by simp
  have upd: "updateHydrogensAfterBondRemoval vt u g atomId M
      = (\<lparr>atoms = atoms M @ A, bonds = bonds M @ B\<rparr>, g + 2 * length A)"
    using fa el more loop by (simp add: updateHydrogensAfterBondRemoval_def Let_def)
  have "inj_on (\<lambda>p. angleAt atom (pp_angle p)) (set P)"
  proof (rule inj_onI)
    fix p q
    assume p: "p \<in> set P" and q: "q \<in> set P"
      and e: "angleAt atom (pp_angle p) = angleAt atom (pp_angle q)"
    from r(5) p q have "0 \<le> pp_angle p" "pp_angle p < pi * 2" "0 \<le> pp_angle q" "pp_angle q < pi * 2"
      by blast+
    with e have "pp_angle p = pp_angle q" by (rule angleAt_inj)
    moreover from r(4) have "inj_on pp_angle (set P)" by (simp add: distinct_map)
    ultimately show "p = q" using p q by (auto dest: inj_onD)
  qed
  moreover from r(4) have "distinct P" by (simp add: distinct_map)
  ultimately have dpos: "distinct (map position A)"
    unfolding r(6) by (simp add: distinct_map)
  from loop upd lenA r(2,3,4,6) dpos show ?thesis
    by (intro exI [of _ P] exI [of _ A] exI [of _ B]) simp
qed

text \<open>
  The run of C5 on a carbon with one carbon neighbour and no hydrogen: three hydrogens are
  added, at three different positions.
\<close>

theorem collision_aware_distinct_angles_witness:
  "find (\<lambda>a. atom_id a = ''c1'') (atoms ethaneSkeleton) = Some (atomAt ''c1'' ''C'' 0 0)
   \<and> element (atomAt ''c1'' ''C'' 0 0) \<noteq> ''H''
   \<and> getBestValenceForBondCount specTable (element (atomAt ''c1'' ''C'' 0 0))
        (getAtomBondCount ''c1'' (bonds ethaneSkeleton)) = Some 4
   \<and> (4::int) \<le> 7
   \<and> int (length (getConnectedHydrogens ''c1'' ethaneSkeleton))
        < getRequiredHydrogens specTable (atomAt ''c1'' ''C'' 0 0) (bonds ethaneSkeleton)
   \<and> length (atoms (fst (updateHydrogensAfterBondRemoval specTable testUuid 0 ''c1'' ethaneSkeleton))) = 5
   \<and> distinct (map position
        (drop 2 (atoms (fst (updateHydrogensAfterBondRemoval specTable testUuid 0 ''c1'' ethaneSkeleton)))))"
proof -
  have fa: "find (\<lambda>a. atom_id a = ''c1'') (atoms ethaneSkeleton) = Some (atomAt ''c1'' ''C'' 0 0)"
    by (simp add: ethaneSkeleton_def atomAt_def)
  have el: "element (atomAt ''c1'' ''C'' 0 0) \<noteq> ''H''"
    by (simp add: atomAt_def)
  have cnt: "getAtomBondCount ''c1'' (bonds ethaneSkeleton) = 1"
    by (simp add: ethaneSkeleton_def bondOf_def getAtomBondCount_def)
  have tv: "getBestValenceForBondCount specTable (element (atomAt ''c1'' ''C'' 0 0))
        (getAtomBondCount ''c1'' (bonds ethaneSkeleton)) = Some 4"
    unfolding cnt by (simp add: atomAt_def specTable_def specBestValence_def specValences_def)
  have hs: "getConnectedHydrogens ''c1'' ethaneSkeleton = []"
    by (simp add: resolver_defs ethaneSkeleton_def atomAt_def bondOf_def)
  have need3: "getRequiredHydrogens specTable (atomAt ''c1'' ''C'' 0 0) (bonds ethaneSkeleton) = 3"
    using tv cnt by (simp add: getRequiredHydrogens_cases atomAt_def)
  have more: "int (length (getConnectedHydrogens ''c1'' ethaneSkeleton))
        < getRequiredHydrogens specTable (atomAt ''c1'' ''C'' 0 0) (bonds ethaneSkeleton)"
    unfolding hs need3 by simp
  have b: "(4::int) \<le> 7" by simp
  from collision_aware_distinct_angles [OF fa el tv b more, of testUuid 0]
  obtain newAtoms newBonds where r:
      "updateHydrogensAfterBondRemoval specTable testUuid 0 ''c1'' ethaneSkeleton
        = (\<lparr>atoms = atoms ethaneSkeleton @ newAtoms, bonds = bonds ethaneSkeleton @ newBonds\<rparr>,
           0 + 2 * length newAtoms)"
      "int (length newAtoms)
        = getRequiredHydrogens specTable (atomAt ''c1'' ''C'' 0 0) (bonds ethaneSkeleton)
          - int (length (getConnectedHydrogens ''c1'' ethaneSkeleton))"
      "distinct (map position newAtoms)"
    by blast
  have two: "length (atoms ethaneSkeleton) = 2" by (simp add: ethaneSkeleton_def)
  from r(2) have three: "length newAtoms = 3" unfolding hs need3 by simp
  from fa el tv b more two three r(3) show ?thesis
    unfolding r(1) by simp
qed


end
